theory Spec2Isabelle
  imports Complex_Main
begin

section \<open>Failures, the result sink and user functions\<close>

text \<open>
  The embedding follows \<^verbatim>\<open>twisted/trial/_asynctest.py\<close>. An exception is a
  \<open>failure\<close>: the class it was raised with and its message. The classes are the ones the
  source tells apart (\<^verbatim>\<open>FailTest\<close>, which is also \<^verbatim>\<open>self.failureException\<close>,
  \<^verbatim>\<open>SkipTest\<close>, \<^verbatim>\<open>KeyboardInterrupt\<close>, the \<^verbatim>\<open>TimeoutError\<close> and
  \<^verbatim>\<open>AlreadyCalledError\<close> of \<^verbatim>\<open>twisted.internet.defer\<close>, \<^verbatim>\<open>TypeError\<close>,
  \<^verbatim>\<open>ValueError\<close>, \<^verbatim>\<open>AttributeError\<close>) and a few more that user code or
  \<^verbatim>\<open>float\<close> raises.
\<close>

datatype exc_kind =
    FailTest | SkipTest | KeyboardInterrupt | TimeoutError | AlreadyCalledError
  | TypeError | ValueError | AttributeError | RuntimeError | OverflowError | SystemExit
  | OtherException

datatype failure = Failure (kind: exc_kind) (message: string)

text \<open>
  Python's \<^verbatim>\<open>except Exception\<close> catches every class but the ones that derive from
  \<^verbatim>\<open>BaseException\<close> only: \<^verbatim>\<open>KeyboardInterrupt\<close> and \<^verbatim>\<open>SystemExit\<close> here.
\<close>

fun isException :: "exc_kind \<Rightarrow> bool" where
  "isException KeyboardInterrupt = False"
| "isException SystemExit = False"
| "isException _ = True"

text \<open>
  The todo annotation of a test (\<^verbatim>\<open>getTodo()\<close>): a reason and the predicate
  \<^verbatim>\<open>todo.expected(f)\<close> over failures.
\<close>

record todo =
  reason :: string
  expected :: "failure \<Rightarrow> bool"

text \<open>The calls the result sink receives, in the order it receives them.\<close>

datatype report =
    AddSuccess
  | AddFailure failure
  | AddError failure
  | AddSkip string
  | AddExpectedFailure failure todo
  | AddUnexpectedSuccess todo
  | Stop

text \<open>
  What a function handed to \<^verbatim>\<open>_run\<close> does, as the Deferred made from it shows it:
  it returns (or its Deferred fires with a value before the timeout), it raises (or its
  Deferred fires with a failure before the timeout), its Deferred is still pending when
  the timeout fires, its Deferred has been called but its callback chain is paused on a
  Deferred that never fires (\<^verbatim>\<open>test_calledButNeverCallback\<close> of
  \<^verbatim>\<open>detests.py\<close>), or it is a generator function.

  A user function is an \<open>action\<close>: its \<^verbatim>\<open>__name__\<close>, if it has one (a
  \<^verbatim>\<open>functools.partial\<close> or an object with \<^verbatim>\<open>__call__\<close> has none), its
  \<^verbatim>\<open>repr\<close>, the cleanups it registers with \<^verbatim>\<open>addCleanup\<close> while it runs (in
  the order it registers them), and its behaviour. A cleanup is an action too, and may
  register further cleanups.
\<close>

datatype behaviour = Succeeds | Fails failure | NeverFires | Stalls | GeneratorFunction

datatype action =
  Action (name: "string option") (repr: string) (registers: "action list") (behaviour: behaviour)

text \<open>
  A call scheduled on the reactor with \<^verbatim>\<open>callLater\<close>: its delay in seconds, and
  whether it has run or been cancelled. The ghost field \<open>description\<close> keeps the
  \<^verbatim>\<open>funcDescription\<close> the scheduled \<^verbatim>\<open>onTimeout\<close> closes over.
\<close>

record delayedCall =
  time :: real
  description :: string
  called :: bool
  cancelled :: bool

text \<open>
  The steps of a test, recorded in the ghost field \<open>trace\<close>: the entry into each phase
  of the sequencer, and every call of a user function by \<^verbatim>\<open>_run\<close> (with its
  \<^verbatim>\<open>funcDescription\<close>).
\<close>

datatype step = SettingUp | RunningTest | CleaningUp | TearingDown | Invoked string

section \<open>The timeout of a test\<close>

text \<open>
  The values a \<^verbatim>\<open>timeout\<close> attribute can hold, as far as \<^verbatim>\<open>getTimeout\<close> tells
  them apart: numbers, strings, \<^verbatim>\<open>None\<close>, and other objects (a method named
  \<^verbatim>\<open>timeout\<close>, say).
\<close>

datatype pyobject = PyFloat real | PyInt int | PyStr string | PyNoneObject | PyOther string

datatype warning = DeprecationWarning string

text \<open>
  Modelled from the spec: the resolution order is instance, class, module, package, then
  the default constant, and the first scope that has the attribute wins
  (\<^verbatim>\<open>util.acquireAttribute\<close>, not among the sources). A scope is the map of its
  attributes.
\<close>

fun acquireAttribute :: "(string \<rightharpoonup> pyobject) list \<Rightarrow> string \<Rightarrow> pyobject \<Rightarrow> pyobject" where
  "acquireAttribute [] attr dflt = dflt"
| "acquireAttribute (obj # objects) attr dflt =
     (case obj attr of
        Some v \<Rightarrow> v
      | None \<Rightarrow> acquireAttribute objects attr dflt)"

text \<open>
  \<^verbatim>\<open>getTimeout()\<close>. Python's builtin \<^verbatim>\<open>float\<close> is the parameter \<open>float\<close>: it
  gives the number, or the class of the exception it raises.
  \<^verbatim>\<open>util.DEFAULT_TIMEOUT_DURATION\<close>, a float, is the parameter \<open>DEFAULT\<close>. The
  result is the value returned or the class of the exception that leaves
  \<^verbatim>\<open>getTimeout\<close>, and the warnings issued.
\<close>

definition getTimeout ::
  "(pyobject \<Rightarrow> exc_kind + real) \<Rightarrow> real \<Rightarrow> (string \<rightharpoonup> pyobject) list \<Rightarrow> (exc_kind + real) \<times> warning list"
where
  "getTimeout float DEFAULT parents =
     (let timeout = acquireAttribute parents ''timeout'' (PyFloat DEFAULT) in
      case float timeout of
        Inr x \<Rightarrow> (Inr x, [])
      | Inl e \<Rightarrow>
          if e = ValueError \<or> e = TypeError then
            (Inr DEFAULT, [DeprecationWarning ''timeout attribute needs to be a number.''])
          else (Inl e, []))"

section \<open>The test case\<close>

text \<open>
  The test case together with the objects it works on: its fixture methods,
  \<^verbatim>\<open>self._testMethodName\<close> and the method of that name, its todo,
  \<^verbatim>\<open>self._parents\<close> with the builtin \<^verbatim>\<open>float\<close> and
  \<^verbatim>\<open>util.DEFAULT_TIMEOUT_DURATION\<close> that \<^verbatim>\<open>getTimeout\<close> reads,
  \<^verbatim>\<open>self._cleanups\<close> (the last element is the top of the stack),
  \<^verbatim>\<open>self._passed\<close>, \<^verbatim>\<open>self._timedOut\<close>, the result sink \<open>reports\<close>, the
  warnings issued, the reactor (its scheduled calls, and whether \<^verbatim>\<open>crash()\<close> was
  called), what the janitor and the log observer will answer in \<^verbatim>\<open>_cleanUp\<close>, the
  module's \<^verbatim>\<open>_wait_is_running\<close> list, and two ghost fields: the trace, and for
  every call of \<^verbatim>\<open>_wait\<close> made from inside \<^verbatim>\<open>reactor.run()\<close> the exception
  it raised, if any.
\<close>

record test =
  setUp :: action
  testMethodName :: string
  testMethod :: action
  tearDown :: action
  getTodo :: "todo option"
  self_parents :: "(string \<rightharpoonup> pyobject) list"
  floatBuiltin :: "pyobject \<Rightarrow> exc_kind + real"
  DEFAULT_TIMEOUT_DURATION :: real
  cleanups :: "action list"
  passed :: bool
  timedOut :: bool
  reports :: "report list"
  warnings :: "warning list"
  delayedCalls :: "delayedCall list"
  reactorCrashed :: bool
  postCaseCleanup :: "failure + bool"
  postClassCleanup :: "failure option"
  loggedErrors :: "failure list"
  running :: "unit list"
  trace :: "step list"
  nestedWaits :: "failure option list"

definition addSuccess :: "test \<Rightarrow> test" where
  "addSuccess t = t\<lparr>reports := reports t @ [AddSuccess]\<rparr>"

definition addFailure :: "failure \<Rightarrow> test \<Rightarrow> test" where
  "addFailure f t = t\<lparr>reports := reports t @ [AddFailure f]\<rparr>"

definition addError :: "failure \<Rightarrow> test \<Rightarrow> test" where
  "addError f t = t\<lparr>reports := reports t @ [AddError f]\<rparr>"

definition addSkip :: "string \<Rightarrow> test \<Rightarrow> test" where
  "addSkip r t = t\<lparr>reports := reports t @ [AddSkip r]\<rparr>"

definition addExpectedFailure :: "failure \<Rightarrow> todo \<Rightarrow> test \<Rightarrow> test" where
  "addExpectedFailure f td t = t\<lparr>reports := reports t @ [AddExpectedFailure f td]\<rparr>"

definition addUnexpectedSuccess :: "todo \<Rightarrow> test \<Rightarrow> test" where
  "addUnexpectedSuccess td t = t\<lparr>reports := reports t @ [AddUnexpectedSuccess td]\<rparr>"

definition stop :: "test \<Rightarrow> test" where
  "stop t = t\<lparr>reports := reports t @ [Stop]\<rparr>"

definition step :: "step \<Rightarrow> test \<Rightarrow> test" where
  "step s t = t\<lparr>trace := trace t @ [s]\<rparr>"

text \<open>\<^verbatim>\<open>self.getTimeout()\<close>, on the test.\<close>

definition self_getTimeout :: "test \<Rightarrow> (exc_kind + real) \<times> warning list" where
  "self_getTimeout t = getTimeout (floatBuiltin t) (DEFAULT_TIMEOUT_DURATION t) (self_parents t)"

section \<open>The reactor's delayed calls and the Deferred\<close>

text \<open>
  Modelled from the spec: the event loop's \<^verbatim>\<open>scheduleAfter(delay, callback)\<close> returns
  a cancellable handle (\<^verbatim>\<open>callLater\<close> and \<^verbatim>\<open>IDelayedCall\<close> of
  \<^verbatim>\<open>twisted.internet\<close>, which are not among the sources). A handle is the index of
  the call in the reactor's list, and is returned for every delay. \<^verbatim>\<open>active()\<close> holds
  while the call has neither run nor been cancelled; \<^verbatim>\<open>cancel()\<close> raises on a call that is not active and
  returns \<^verbatim>\<open>None\<close> otherwise.
\<close>

definition callLater :: "real \<Rightarrow> string \<Rightarrow> test \<Rightarrow> nat \<times> test" where
  "callLater delay desc t =
     (length (delayedCalls t),
      t\<lparr>delayedCalls := delayedCalls t @
            [\<lparr>time = delay, description = desc, called = False, cancelled = False\<rparr>]\<rparr>)"

definition active :: "nat \<Rightarrow> test \<Rightarrow> bool" where
  "active call t =
     (call < length (delayedCalls t) \<and>
      \<not> (cancelled (delayedCalls t ! call) \<or> called (delayedCalls t ! call)))"

text \<open>The Python values the operands of \<^verbatim>\<open>and\<close> and \<^verbatim>\<open>or\<close> take below.\<close>

datatype pyval = PyNone | PyBool bool

fun truthy :: "pyval \<Rightarrow> bool" where
  "truthy PyNone = False"
| "truthy (PyBool b) = b"

definition cancel :: "nat \<Rightarrow> test \<Rightarrow> failure + (pyval \<times> test)" where
  "cancel call t =
     (if \<not> active call t then Inl (Failure OtherException ''AlreadyCancelled or AlreadyCalled'')
      else Inr (PyNone,
                t\<lparr>delayedCalls := (delayedCalls t)
                     [call := (delayedCalls t ! call)\<lparr>cancelled := True\<rparr>]\<rparr>))"

text \<open>
  Modelled from the spec: a PendingResult holds \<open>state \<in> {pending, fired}\<close> and an
  optional outcome, a success or a failure; it fires at most once, and firing it again is
  the error AlreadyFired (\<^verbatim>\<open>defer.Deferred\<close> and \<^verbatim>\<open>AlreadyCalledError\<close>, not
  among the sources). \<open>Paused\<close> is a Deferred that has been called and whose chain
  waits on another Deferred. \<open>callbacks\<close> are the continuations attached and not yet
  run; the only ones \<^verbatim>\<open>_run\<close> attaches cancel a scheduled call, so each is kept as
  the handle of that call.
\<close>

datatype outcome = Success | Failed failure

datatype dstatus = Pending | Paused | Fired outcome

record deferred =
  status :: dstatus
  callbacks :: "nat list"

text \<open>
  The continuation \<^verbatim>\<open>lambda x: call.active() and call.cancel() or x\<close> of
  \<^verbatim>\<open>_run\<close>. \<^verbatim>\<open>a and b\<close> evaluates \<^verbatim>\<open>b\<close> only when \<^verbatim>\<open>a\<close> is true and is
  \<^verbatim>\<open>a\<close> otherwise; \<^verbatim>\<open>l or x\<close> is \<^verbatim>\<open>l\<close> when \<^verbatim>\<open>l\<close> is true and \<^verbatim>\<open>x\<close>
  otherwise. The result is \<open>Inl e\<close> when the continuation raises, \<open>Inr (Inl l)\<close> when
  it returns the left operand of \<^verbatim>\<open>or\<close>, \<open>Inr (Inr x)\<close> when it returns \<^verbatim>\<open>x\<close>.
\<close>

definition cancelTimeout :: "nat \<Rightarrow> outcome \<Rightarrow> test \<Rightarrow> (failure + (pyval + outcome)) \<times> test" where
  "cancelTimeout call x t =
     (let a = PyBool (active call t) in
      if truthy a then
        (case cancel call t of
           Inl e \<Rightarrow> (Inl e, t)
         | Inr (r, t') \<Rightarrow> (Inr (if truthy r then Inl r else Inr x), t'))
      else (Inr (if truthy a then Inl a else Inr x), t))"

text \<open>
  Modelled from the spec: continuations run in attachment order with the final outcome,
  and one attached after firing runs immediately. What a continuation returns is the
  outcome the next one sees; one that raises turns it into that failure.
\<close>

definition callback :: "nat \<Rightarrow> outcome \<Rightarrow> test \<Rightarrow> outcome \<times> test" where
  "callback call x t =
     (case cancelTimeout call x t of
        (Inl e, t') \<Rightarrow> (Failed e, t')
      | (Inr (Inl l), t') \<Rightarrow> (Success, t')
      | (Inr (Inr y), t') \<Rightarrow> (y, t'))"

fun runCallbacks :: "nat list \<Rightarrow> outcome \<Rightarrow> test \<Rightarrow> outcome \<times> test" where
  "runCallbacks [] x t = (x, t)"
| "runCallbacks (c # cs) x t = (case callback c x t of (y, t') \<Rightarrow> runCallbacks cs y t')"

definition addBoth :: "nat \<Rightarrow> deferred \<Rightarrow> test \<Rightarrow> deferred \<times> test" where
  "addBoth call d t =
     (case status d of
        Fired x \<Rightarrow> (case callback call x t of (y, t') \<Rightarrow> (d\<lparr>status := Fired y\<rparr>, t'))
      | _ \<Rightarrow> (d\<lparr>callbacks := callbacks d @ [call]\<rparr>, t))"

text \<open>\<^verbatim>\<open>d.errback(f)\<close>: \<open>None\<close> is the raise of \<^verbatim>\<open>AlreadyCalledError\<close>.\<close>

definition errback :: "failure \<Rightarrow> deferred \<Rightarrow> test \<Rightarrow> (deferred \<times> test) option" where
  "errback f d t =
     (case status d of
        Pending \<Rightarrow>
          (case runCallbacks (callbacks d) (Failed f) t of
             (y, t') \<Rightarrow> Some (d\<lparr>status := Fired y, callbacks := []\<rparr>, t'))
      | _ \<Rightarrow> None)"

definition fail :: "failure \<Rightarrow> deferred" where
  "fail f = \<lparr>status = Fired (Failed f), callbacks = []\<rparr>"

text \<open>
  The cleanups a call of an action registers: calling a generator function only makes a
  generator object, and its body never runs.
\<close>

definition pushed :: "action \<Rightarrow> action list" where
  "pushed func = (if behaviour func = GeneratorFunction then [] else registers func)"

text \<open>
  \<^verbatim>\<open>defer.maybeDeferred(utils.runWithWarningsSuppressed, self._getSuppress(), func)\<close>
  calls \<^verbatim>\<open>func\<close>: the cleanups it registers are pushed, and the Deferred is what its
  behaviour says. A function that finishes before the timeout is taken as finished when
  \<^verbatim>\<open>maybeDeferred\<close> returns.
\<close>

definition maybeDeferred :: "action \<Rightarrow> test \<Rightarrow> deferred \<times> test" where
  "maybeDeferred func t =
     (\<lparr>status = (case behaviour func of
                   Succeeds \<Rightarrow> Fired Success
                 | Fails f \<Rightarrow> Fired (Failed f)
                 | NeverFires \<Rightarrow> Pending
                 | Stalls \<Rightarrow> Paused
                 | GeneratorFunction \<Rightarrow> Fired Success),
       callbacks = []\<rparr>,
      t\<lparr>cleanups := cleanups t @ pushed func\<rparr>)"

section \<open>The phase runner\<close>

text \<open>
  \<^verbatim>\<open>onTimeout(d)\<close> of \<^verbatim>\<open>_run\<close>. The message of the timeout failure keeps the
  \<^verbatim>\<open>funcDescription\<close>; the \<^verbatim>\<open>repr\<close> of the test and the number of seconds are
  left out of it.
\<close>

definition onTimeout :: "string \<Rightarrow> deferred \<Rightarrow> test \<Rightarrow> deferred \<times> test" where
  "onTimeout funcDescription d t =
     (let f = Failure TimeoutError (''('' @ funcDescription @ '') still running'') in
      case errback f d t of
        Some (d', t') \<Rightarrow> (d', t')
      | None \<Rightarrow>
          (let t1 = t\<lparr>reactorCrashed := True\<rparr>;
               t2 = t1\<lparr>timedOut := True\<rparr>
           in (d, case getTodo t2 of
                    Some td \<Rightarrow> if expected td f then addExpectedFailure f td t2 else addError f t2
                  | None \<Rightarrow> addError f t2)))"

definition isgeneratorfunction :: "action \<Rightarrow> bool" where
  "isgeneratorfunction func = (behaviour func = GeneratorFunction)"

text \<open>
  \<^verbatim>\<open>_run(func, funcDescription, result)\<close>. \<open>Inl e\<close> is the exception that leaves
  \<^verbatim>\<open>_run\<close>: the one \<^verbatim>\<open>self.getTimeout()\<close> raises, of which the class is
  known and the message is not. \<open>Inr d\<close> is the Deferred returned. The warnings of
  \<^verbatim>\<open>getTimeout\<close> are issued on the way. The ghost step \<open>Invoked\<close> records that
  \<^verbatim>\<open>func\<close> is called. Whether the function finishes within the delay is what its
  behaviour says.
\<close>

definition run :: "action \<Rightarrow> string \<Rightarrow> test \<Rightarrow> (failure + deferred) \<times> test" where
  "run func funcDescription t =
     (case self_getTimeout t of
        (Inl e, ws) \<Rightarrow> (Inl (Failure e []), t\<lparr>warnings := warnings t @ ws\<rparr>)
      | (Inr timeout, ws) \<Rightarrow>
          (let t0 = t\<lparr>warnings := warnings t @ ws\<rparr> in
           if isgeneratorfunction func then
             (Inr (fail (Failure TypeError
                (repr func @ '' is a generator function and therefore will never run''))), t0)
           else
             (case maybeDeferred func (step (Invoked funcDescription) t0) of
                (d, t1) \<Rightarrow>
                  (case callLater timeout funcDescription t1 of
                     (call, t2) \<Rightarrow>
                       (case addBoth call d t2 of (d', t3) \<Rightarrow> (Inr d', t3))))))"

text \<open>
  What the coroutine (or the \<^verbatim>\<open>inlineCallbacks\<close> generator) sees at
  \<^verbatim>\<open>await d\<close>: the value, the exception raised into it, or nothing, when it is never
  resumed.
\<close>

datatype awaited = Returned | Raised failure | Suspended

fun resume :: "outcome \<Rightarrow> awaited" where
  "resume Success = Returned"
| "resume (Failed f) = Raised f"

text \<open>
  Modelled from the spec: if the PendingResult fires before the deadline the scheduled
  action is cancelled; if the deadline elapses first, the scheduled action runs. A
  Deferred that has fired resumes the coroutine at once. One that has not is never fired
  by its own chain (behaviours \<open>NeverFires\<close> and \<open>Stalls\<close>), so the reactor comes to run
  the scheduled \<^verbatim>\<open>onTimeout\<close>, marking the call as called first; the coroutine resumes
  if that fires the Deferred. With no timeout call that is still active, nothing ever
  resumes it.
\<close>

definition await :: "deferred \<Rightarrow> test \<Rightarrow> awaited \<times> test" where
  "await d t =
     (case status d of
        Fired x \<Rightarrow> (resume x, t)
      | _ \<Rightarrow>
        (case callbacks d of
           [] \<Rightarrow> (Suspended, t)
         | call # _ \<Rightarrow>
             if \<not> active call t then (Suspended, t)
             else
               (let c = delayedCalls t ! call;
                    t1 = t\<lparr>delayedCalls := (delayedCalls t)[call := c\<lparr>called := True\<rparr>]\<rparr>
                in case onTimeout (description c) d t1 of
                     (d', t2) \<Rightarrow>
                       (case status d' of
                          Fired x \<Rightarrow> (resume x, t2)
                        | _ \<Rightarrow> (Suspended, t2)))))"

text \<open>
  \<^verbatim>\<open>await self._run(func, funcDescription, result)\<close>: an exception that leaves
  \<^verbatim>\<open>_run\<close> is raised where the coroutine awaits.
\<close>

definition phase :: "action \<Rightarrow> string \<Rightarrow> test \<Rightarrow> awaited \<times> test" where
  "phase func funcDescription t =
     (case run func funcDescription t of
        (Inl e, t1) \<Rightarrow> (Raised e, t1)
      | (Inr d, t1) \<Rightarrow> await d t1)"

text \<open>
  \<^verbatim>\<open>self.getTimeout()\<close> returns, with the delay \<open>timeout t\<close>, or raises.
\<close>

definition getTimeoutReturns :: "test \<Rightarrow> bool" where
  "getTimeoutReturns t = (case fst (self_getTimeout t) of Inr x \<Rightarrow> True | Inl e \<Rightarrow> False)"

definition timeout :: "test \<Rightarrow> real" where
  "timeout t = (case fst (self_getTimeout t) of Inr x \<Rightarrow> x | Inl e \<Rightarrow> 0)"

lemma run_raises:
  "fst (self_getTimeout t) = Inl e \<Longrightarrow>
   run func d t = (Inl (Failure e []), t\<lparr>warnings := warnings t @ snd (self_getTimeout t)\<rparr>)"
  by (cases "self_getTimeout t") (simp add: run_def)

lemma run_returns:
  "getTimeoutReturns t \<Longrightarrow>
   run func d t =
     (let t0 = t\<lparr>warnings := warnings t @ snd (self_getTimeout t)\<rparr> in
      if isgeneratorfunction func then
        (Inr (fail (Failure TypeError
           (repr func @ '' is a generator function and therefore will never run''))), t0)
      else
        (case maybeDeferred func (step (Invoked d) t0) of
           (dfr, t1) \<Rightarrow>
             (case callLater (timeout t) d t1 of
                (call, t2) \<Rightarrow> (case addBoth call dfr t2 of (d', t3) \<Rightarrow> (Inr d', t3)))))"
proof -
  assume "getTimeoutReturns t"
  then obtain x ws where r: "self_getTimeout t = (Inr x, ws)"
    by (cases "self_getTimeout t"; cases "fst (self_getTimeout t)")
       (simp_all add: getTimeoutReturns_def)
  then have "timeout t = x"
    by (simp add: timeout_def)
  with r show ?thesis
    by (simp add: run_def Let_def)
qed

text \<open>What a phase does: when \<^verbatim>\<open>getTimeout\<close> raises, and behaviour by behaviour.\<close>

lemma phase_raises:
  "fst (self_getTimeout t) = Inl e \<Longrightarrow>
   phase a d t = (Raised (Failure e []), t\<lparr>warnings := warnings t @ snd (self_getTimeout t)\<rparr>)"
  by (simp add: phase_def run_raises)

lemma phase_not_returns:
  "\<not> getTimeoutReturns t \<Longrightarrow>
   phase a d t =
     (Raised (Failure (projl (fst (self_getTimeout t))) []),
      t\<lparr>warnings := warnings t @ snd (self_getTimeout t)\<rparr>)"
  by (cases "fst (self_getTimeout t)") (simp_all add: phase_raises getTimeoutReturns_def)

lemma phase_GeneratorFunction:
  "getTimeoutReturns t \<Longrightarrow> behaviour a = GeneratorFunction \<Longrightarrow>
   phase a d t =
     (Raised (Failure TypeError (repr a @ '' is a generator function and therefore will never run'')),
      t\<lparr>warnings := warnings t @ snd (self_getTimeout t)\<rparr>)"
  by (simp add: phase_def run_returns isgeneratorfunction_def fail_def await_def)

lemma phase_Succeeds:
  "getTimeoutReturns t \<Longrightarrow> behaviour a = Succeeds \<Longrightarrow>
   phase a d t = (Returned,
     t\<lparr>warnings := warnings t @ snd (self_getTimeout t),
       trace := trace t @ [Invoked d], cleanups := cleanups t @ registers a,
       delayedCalls := delayedCalls t @
         [\<lparr>time = timeout t, description = d, called = False, cancelled = True\<rparr>]\<rparr>)"
  by (simp add: phase_def run_returns isgeneratorfunction_def
      await_def maybeDeferred_def pushed_def step_def callLater_def addBoth_def callback_def
      cancelTimeout_def active_def cancel_def nth_append)

lemma phase_Fails:
  "getTimeoutReturns t \<Longrightarrow> behaviour a = Fails f \<Longrightarrow>
   phase a d t = (Raised f,
     t\<lparr>warnings := warnings t @ snd (self_getTimeout t),
       trace := trace t @ [Invoked d], cleanups := cleanups t @ registers a,
       delayedCalls := delayedCalls t @
         [\<lparr>time = timeout t, description = d, called = False, cancelled = True\<rparr>]\<rparr>)"
  by (simp add: phase_def run_returns isgeneratorfunction_def
      await_def maybeDeferred_def pushed_def step_def callLater_def addBoth_def callback_def
      cancelTimeout_def active_def cancel_def nth_append)

lemma phase_NeverFires:
  "getTimeoutReturns t \<Longrightarrow> behaviour a = NeverFires \<Longrightarrow>
   phase a d t = (Raised (Failure TimeoutError (''('' @ d @ '') still running'')),
     t\<lparr>warnings := warnings t @ snd (self_getTimeout t),
       trace := trace t @ [Invoked d], cleanups := cleanups t @ registers a,
       delayedCalls := delayedCalls t @
         [\<lparr>time = timeout t, description = d, called = True, cancelled = False\<rparr>]\<rparr>)"
  by (simp add: phase_def run_returns isgeneratorfunction_def
      await_def maybeDeferred_def pushed_def step_def callLater_def addBoth_def callback_def
      cancelTimeout_def active_def cancel_def nth_append onTimeout_def errback_def Let_def)

lemma phase_Stalls:
  "getTimeoutReturns t \<Longrightarrow> behaviour a = Stalls \<Longrightarrow>
   phase a d t = (Suspended,
     (let f = Failure TimeoutError (''('' @ d @ '') still running'') in
      t\<lparr>warnings := warnings t @ snd (self_getTimeout t),
        trace := trace t @ [Invoked d], cleanups := cleanups t @ registers a,
        delayedCalls := delayedCalls t @
          [\<lparr>time = timeout t, description = d, called = True, cancelled = False\<rparr>],
        reactorCrashed := True, timedOut := True,
        reports := reports t @
          [case getTodo t of
             None \<Rightarrow> AddError f
           | Some td \<Rightarrow> if expected td f then AddExpectedFailure f td else AddError f]\<rparr>))"
  by (simp add: phase_def run_returns isgeneratorfunction_def
      await_def maybeDeferred_def pushed_def step_def callLater_def addBoth_def callback_def
      cancelTimeout_def active_def cancel_def nth_append onTimeout_def errback_def Let_def
      addError_def addExpectedFailure_def
      split: option.splits)

lemmas phase_simps =
  phase_not_returns phase_GeneratorFunction phase_Succeeds phase_Fails phase_NeverFires phase_Stalls

text \<open>
  The part of the test that no phase changes: the fixture methods, the todo, what
  \<^verbatim>\<open>getTimeout\<close> reads, what the janitor and the log observer will answer, and the
  list \<^verbatim>\<open>running\<close>.
\<close>

definition fixture where
  "fixture t =
     (setUp t, testMethodName t, testMethod t, tearDown t, getTodo t, self_parents t,
      floatBuiltin t, DEFAULT_TIMEOUT_DURATION t, postCaseCleanup t, postClassCleanup t,
      loggedErrors t, running t, nestedWaits t)"

lemma fixture_phase: "fixture (snd (phase a d t)) = fixture t"
proof (cases "fst (self_getTimeout t)")
  case (Inl e)
  then show ?thesis by (simp add: phase_raises fixture_def)
next
  case (Inr x)
  then have "getTimeoutReturns t" by (simp add: getTimeoutReturns_def)
  then show ?thesis
    by (cases "behaviour a") (simp_all add: phase_simps fixture_def Let_def)
qed

lemma passed_phase: "passed (snd (phase a d t)) = passed t"
proof (cases "fst (self_getTimeout t)")
  case (Inl e)
  then show ?thesis by (simp add: phase_raises)
next
  case (Inr x)
  then have "getTimeoutReturns t" by (simp add: getTimeoutReturns_def)
  then show ?thesis
    by (cases "behaviour a") (simp_all add: phase_simps Let_def)
qed

lemma cleanups_phase:
  "cleanups (snd (phase a d t)) = cleanups t @ (if getTimeoutReturns t then pushed a else [])"
proof (cases "fst (self_getTimeout t)")
  case (Inl e)
  then show ?thesis by (simp add: phase_raises getTimeoutReturns_def)
next
  case (Inr x)
  then have "getTimeoutReturns t" by (simp add: getTimeoutReturns_def)
  then show ?thesis
    by (cases "behaviour a") (simp_all add: phase_simps pushed_def Let_def)
qed

section \<open>The cleanup stack\<close>

text \<open>
  \<^verbatim>\<open>_deferRunCleanups\<close> hands \<^verbatim>\<open>_run\<close> the function
  \<^verbatim>\<open>lambda: func(*args, **kwargs)\<close>. A lambda is never a generator function. When
  \<^verbatim>\<open>func\<close> is one, calling it only makes a generator object: the lambda returns,
  and the body of \<^verbatim>\<open>func\<close> never runs.
\<close>

definition cleanupLambda :: "action \<Rightarrow> action" where
  "cleanupLambda func =
     Action (Some ''<lambda>'') ''<function TestCase._deferRunCleanups.<locals>.<lambda>>''
       (pushed func)
       (if behaviour func = GeneratorFunction then Succeeds else behaviour func)"

text \<open>
  The statement in the \<^verbatim>\<open>try\<close> of \<^verbatim>\<open>_deferRunCleanups\<close>,
  \<^verbatim>\<open>yield self._run(lambda: func(*args, **kwargs), f"cleanup function {func.__name__}", result)\<close>.
  The arguments are evaluated before the call: for a \<^verbatim>\<open>func\<close> without
  \<^verbatim>\<open>__name__\<close> the f-string raises \<^verbatim>\<open>AttributeError\<close>, and \<^verbatim>\<open>_run\<close> is
  not called.
\<close>

definition runCleanup :: "action \<Rightarrow> test \<Rightarrow> awaited \<times> test" where
  "runCleanup func t =
     (case name func of
        None \<Rightarrow> (Raised (Failure AttributeError ''object has no attribute __name__''), t)
      | Some n \<Rightarrow> phase (cleanupLambda func) (''cleanup function '' @ n) t)"

text \<open>The number of actions in an action and in the cleanups it registers.\<close>

fun weight :: "action \<Rightarrow> nat" where
  "weight (Action n r rs b) = Suc (sum_list (map weight rs))"

lemma weight_registers: "sum_list (map weight (registers a)) < weight a"
  by (cases a) simp

lemma weight_butlast_registers:
  assumes "cs \<noteq> []"
  shows "sum_list (map weight (butlast cs @ registers (last cs))) < sum_list (map weight cs)"
proof -
  have "sum_list (map weight cs) = sum_list (map weight (butlast cs @ [last cs]))"
    using assms by simp
  also have "\<dots> = sum_list (map weight (butlast cs)) + weight (last cs)"
    by (simp del: append_butlast_last_id)
  finally show ?thesis
    using weight_registers [of "last cs"] by simp
qed

lemma weight_butlast:
  assumes "cs \<noteq> []"
  shows "sum_list (map weight (butlast cs)) < sum_list (map weight cs)"
proof -
  have "sum_list (map weight cs) = sum_list (map weight (butlast cs @ [last cs]))"
    using assms by simp
  also have "\<dots> = sum_list (map weight (butlast cs)) + weight (last cs)"
    by (simp del: append_butlast_last_id)
  finally show ?thesis
    by (cases "last cs") simp
qed

lemma cleanups_runCleanup:
  "cleanups (snd (runCleanup a t)) =
     cleanups t @ (if name a \<noteq> None \<and> getTimeoutReturns t then pushed a else [])"
  by (cases "name a") (simp_all add: runCleanup_def cleanups_phase cleanupLambda_def pushed_def)

lemma weight_runCleanup:
  assumes "cleanups t \<noteq> []"
  shows "sum_list (map weight (cleanups (snd (runCleanup (last (cleanups t))
            (t\<lparr>cleanups := butlast (cleanups t)\<rparr>)))))
         < sum_list (map weight (cleanups t))"
  using weight_butlast_registers [OF assms] weight_butlast [OF assms]
  by (simp add: cleanups_runCleanup pushed_def)

text \<open>
  The \<^verbatim>\<open>while\<close> loop of \<^verbatim>\<open>_deferRunCleanups\<close>, with the list \<^verbatim>\<open>failures\<close>
  it fills. \<^verbatim>\<open>except Exception\<close> lets an exception that is no \<^verbatim>\<open>Exception\<close>
  leave the generator; a \<^verbatim>\<open>yield\<close> that is never resumed ends the loop as well.
\<close>

function cleanupsLoop :: "failure list \<Rightarrow> test \<Rightarrow> (awaited \<times> failure list) \<times> test" where
  "cleanupsLoop failures t =
     (if length (cleanups t) > 0 then
        (let func = last (cleanups t);
             t1 = t\<lparr>cleanups := butlast (cleanups t)\<rparr>
         in case runCleanup func t1 of
              (Returned, t2) \<Rightarrow> cleanupsLoop failures t2
            | (Raised f, t2) \<Rightarrow>
                if isException (kind f) then cleanupsLoop (failures @ [f]) t2
                else ((Raised f, failures), t2)
            | (Suspended, t2) \<Rightarrow> ((Suspended, failures), t2))
      else ((Returned, failures), t))"
  by pat_completeness auto
termination
  apply (relation "measure (\<lambda>(failures, t). sum_list (map weight (cleanups t)))")
  apply simp
  subgoal for failures t x xa xb y
    using weight_runCleanup [of t]
    by (metis (no_types, lifting) case_prod_conv in_measure length_greater_0_conv snd_conv)
  subgoal for failures t x xa xb y f
    using weight_runCleanup [of t]
    by (metis (no_types, lifting) case_prod_conv in_measure length_greater_0_conv snd_conv)
  done

declare cleanupsLoop.simps [simp del]

text \<open>
  The \<^verbatim>\<open>for f in failures\<close> loop of \<^verbatim>\<open>_deferRunCleanups\<close>; the loop over
  \<^verbatim>\<open>self._observer.getErrors()\<close> in \<^verbatim>\<open>_cleanUp\<close> has the same body.
\<close>

fun reportErrors :: "failure list \<Rightarrow> test \<Rightarrow> test" where
  "reportErrors [] t = t"
| "reportErrors (f # failures) t = reportErrors failures ((addError f t)\<lparr>passed := False\<rparr>)"

text \<open>
  \<^verbatim>\<open>_deferRunCleanups(ignored, result)\<close>. The failures are reported after the
  \<^verbatim>\<open>while\<close> loop, so only when the loop ends by itself.
\<close>

definition deferRunCleanups :: "test \<Rightarrow> awaited \<times> test" where
  "deferRunCleanups t =
     (case cleanupsLoop [] (step CleaningUp t) of
        ((Returned, failures), t1) \<Rightarrow> (Returned, reportErrors failures t1)
      | ((Raised e, failures), t1) \<Rightarrow> (Raised e, t1)
      | ((Suspended, failures), t1) \<Rightarrow> (Suspended, t1))"

section \<open>The phase sequencer\<close>

text \<open>
  Modelled from the spec: \<^verbatim>\<open>addSkip(test, reason)\<close> takes the reason of the skip
  signal (\<^verbatim>\<open>_getSkipReason\<close> of \<^verbatim>\<open>_synctest.py\<close>, not among the sources): the
  message the signal was raised with.
\<close>

definition getSkipReason :: "failure \<Rightarrow> string" where
  "getSkipReason e = message e"

text \<open>\<^verbatim>\<open>_ebDeferTestMethod(f, result)\<close>.\<close>

definition ebDeferTestMethod :: "failure \<Rightarrow> test \<Rightarrow> test" where
  "ebDeferTestMethod f t =
     (let todo = getTodo t in
      if todo \<noteq> None \<and> expected (the todo) f then addExpectedFailure f (the todo) t
      else if kind f = FailTest then addFailure f t
      else if kind f = KeyboardInterrupt then stop (addError f t)
      else if kind f = SkipTest then addSkip (getSkipReason f) t
      else addError f t)"

text \<open>
  The innermost \<^verbatim>\<open>try\<close> of \<^verbatim>\<open>_deferSetUp\<close>: the test method is run, and its
  outcome classified. An exception is raised again after \<^verbatim>\<open>_ebDeferTestMethod\<close>.
\<close>

definition runTestMethod :: "test \<Rightarrow> awaited \<times> test" where
  "runTestMethod t =
     (case phase (testMethod t) (testMethodName t) (step RunningTest t) of
        (Returned, t1) \<Rightarrow>
          (Returned,
           if getTodo t1 \<noteq> None then addUnexpectedSuccess (the (getTodo t1)) t1
           else t1\<lparr>passed := True\<rparr>)
      | (Raised e, t1) \<Rightarrow> (Raised e, ebDeferTestMethod e t1)
      | (Suspended, t1) \<Rightarrow> (Suspended, t1))"

text \<open>\<^verbatim>\<open>_deferTearDown(result)\<close>: it catches every exception, so it never raises.\<close>

definition deferTearDown :: "test \<Rightarrow> awaited \<times> test" where
  "deferTearDown t =
     (case phase (tearDown t) ''tearDown'' (step TearingDown t) of
        (Returned, t1) \<Rightarrow> (Returned, t1)
      | (Raised e, t1) \<Rightarrow>
          if kind e = KeyboardInterrupt then (Returned, (stop (addError e t1))\<lparr>passed := False\<rparr>)
          else (Returned, (addError e t1)\<lparr>passed := False\<rparr>)
      | (Suspended, t1) \<Rightarrow> (Suspended, t1))"

text \<open>
  \<^verbatim>\<open>_deferSetUp(result)\<close>, the coroutine of the whole test. After a failed
  \<^verbatim>\<open>setUp\<close> it ends as the drain of the cleanups ends. After a successful one, the
  two \<^verbatim>\<open>finally\<close> clauses run the drain and \<^verbatim>\<open>_deferTearDown\<close>; the exception
  that leaves the coroutine is the one the drain raised, or else the one the test method
  raised. An \<^verbatim>\<open>await\<close> that is never resumed leaves the rest of the coroutine
  unrun.
\<close>

definition deferSetUp :: "test \<Rightarrow> awaited \<times> test" where
  "deferSetUp t =
     (case phase (setUp t) ''setUp'' (step SettingUp t) of
        (Raised e, t1) \<Rightarrow>
          if kind e = SkipTest then deferRunCleanups (addSkip (getSkipReason e) t1)
          else if kind e = KeyboardInterrupt then deferRunCleanups (stop (addError e t1))
          else deferRunCleanups (addError e t1)
      | (Suspended, t1) \<Rightarrow> (Suspended, t1)
      | (Returned, t1) \<Rightarrow>
          (case runTestMethod t1 of
             (Suspended, t2) \<Rightarrow> (Suspended, t2)
           | (r, t2) \<Rightarrow>
               (case deferRunCleanups t2 of
                  (Suspended, t3) \<Rightarrow> (Suspended, t3)
                | (c, t3) \<Rightarrow>
                    (case deferTearDown t3 of
                       (Suspended, t4) \<Rightarrow> (Suspended, t4)
                     | (_, t4) \<Rightarrow> (case c of Raised g \<Rightarrow> Raised g | _ \<Rightarrow> r, t4)))))"

text \<open>
  \<^verbatim>\<open>_cleanUp(result)\<close>. \<open>postCaseCleanup t\<close> is what
  \<^verbatim>\<open>util._Janitor(self, result).postCaseCleanup()\<close> does: it returns \<^verbatim>\<open>clean\<close> or
  raises. The janitor is not among the sources; what it reports to the result by itself
  when the reactor is not clean is not kept in \<open>reports\<close>. \<open>loggedErrors t\<close> are the
  errors of \<^verbatim>\<open>self._observer.getErrors()\<close>, flushed at the end.
\<close>

definition cleanUp :: "test \<Rightarrow> test" where
  "cleanUp t =
     (let t1 = (case postCaseCleanup t of
                  Inr clean \<Rightarrow> if \<not> clean then t\<lparr>passed := False\<rparr> else t
                | Inl e \<Rightarrow> (addError e t)\<lparr>passed := False\<rparr>);
          t2 = reportErrors (loggedErrors t1) t1;
          t3 = t2\<lparr>loggedErrors := []\<rparr>
      in if passed t3 then addSuccess t3 else t3)"

text \<open>
  \<^verbatim>\<open>_classCleanUp(result)\<close>. \<open>postClassCleanup t\<close> is the exception
  \<^verbatim>\<open>util._Janitor(self, result).postClassCleanup()\<close> raises, if it raises.
\<close>

definition classCleanUp :: "test \<Rightarrow> test" where
  "classCleanUp t = (case postClassCleanup t of None \<Rightarrow> t | Some e \<Rightarrow> addError e t)"

section \<open>The blocking wait\<close>

text \<open>
  What happens inside \<^verbatim>\<open>reactor.run()\<close> while \<^verbatim>\<open>_wait\<close> is blocked, one event
  after the other: the Deferred waited for fires, so \<^verbatim>\<open>append\<close> and \<^verbatim>\<open>crash\<close>
  run; something else calls \<^verbatim>\<open>reactor.crash()\<close> (the \<^verbatim>\<open>onTimeout\<close> of
  \<^verbatim>\<open>_run\<close>, or the \<^verbatim>\<open>stop\<close> installed as \<^verbatim>\<open>reactor.stop\<close>);
  \<^verbatim>\<open>reactor.run()\<close> raises; or a callback calls \<^verbatim>\<open>_wait\<close> again, on some
  Deferred and with the events its own \<^verbatim>\<open>reactor.run()\<close> would see. A crash ends
  \<^verbatim>\<open>reactor.run()\<close>; when the events end without one, it never returns (\<open>None\<close>).
\<close>

datatype event =
    Fires outcome
  | Crashes
  | RunRaises failure
  | CallsWait deferred "event list"

definition popRunning :: "test \<Rightarrow> test" where
  "popRunning t = t\<lparr>running := butlast (running t)\<rparr>"

text \<open>
  \<^verbatim>\<open>_wait(d, running=_wait_is_running)\<close> and the \<^verbatim>\<open>reactor.run()\<close> it calls.
  \<open>wait\<close> gives the exception that leaves \<^verbatim>\<open>_wait\<close>, if one does;
  \<open>popRunning\<close> is the \<^verbatim>\<open>finally\<close> clause. The exception a nested
  \<^verbatim>\<open>_wait\<close> raises goes to the callback that called it, not to
  \<^verbatim>\<open>reactor.run()\<close>: the ghost field \<open>nestedWaits\<close> keeps it.
\<close>

fun wait :: "event list \<Rightarrow> deferred \<Rightarrow> test \<Rightarrow> (failure option \<times> test) option"
  and reactorRun :: "event list \<Rightarrow> outcome list \<Rightarrow> test \<Rightarrow> (failure option \<times> outcome list \<times> test) option"
where
  "wait evs d t =
     (if running t \<noteq> [] then Some (Some (Failure RuntimeError ''_wait is not reentrant''), t)
      else
        (let t1 = t\<lparr>running := running t @ [()]\<rparr>;
             results = (case status d of Fired x \<Rightarrow> [x] | _ \<Rightarrow> [])
         in if results \<noteq> [] then Some (None, popRunning t1)
            else
              (case reactorRun evs results t1 of
                 None \<Rightarrow> None
               | Some (Some e, results', t2) \<Rightarrow> Some (Some e, popRunning t2)
               | Some (None, results', t2) \<Rightarrow>
                   if results' \<noteq> [] \<or> timedOut t2 then Some (None, popRunning t2)
                   else Some (Some (Failure KeyboardInterrupt []), popRunning t2))))"
| "reactorRun [] results t = None"
| "reactorRun (Fires x # evs) results t = Some (None, results @ [x], t\<lparr>reactorCrashed := True\<rparr>)"
| "reactorRun (Crashes # evs) results t = Some (None, results, t\<lparr>reactorCrashed := True\<rparr>)"
| "reactorRun (RunRaises e # evs) results t = Some (Some e, results, t)"
| "reactorRun (CallsWait d' evs' # evs) results t =
     (case wait evs' d' t of
        None \<Rightarrow> None
      | Some (e, t') \<Rightarrow> reactorRun evs results (t'\<lparr>nestedWaits := nestedWaits t' @ [e]\<rparr>))"

text \<open>
  Modelled from the spec: the whole sequence's final PendingResult is handed to the
  blocking bridge (\<^verbatim>\<open>defer.Deferred.fromCoroutine\<close>, not among the sources). It has
  fired when the coroutine has returned or raised, and never fires when the coroutine is
  never resumed.
\<close>

definition fromCoroutine :: "awaited \<Rightarrow> deferred" where
  "fromCoroutine r =
     (case r of
        Returned \<Rightarrow> \<lparr>status = Fired Success, callbacks = []\<rparr>
      | Raised e \<Rightarrow> fail e
      | Suspended \<Rightarrow> \<lparr>status = Pending, callbacks = []\<rparr>)"

text \<open>
  \<^verbatim>\<open>_runFixturesAndTest(result)\<close>, with the events of the reactor while \<^verbatim>\<open>_wait\<close>
  is blocked. The coroutine is taken to its end, or to the \<^verbatim>\<open>await\<close> that is never
  resumed, before \<^verbatim>\<open>_wait\<close> looks at its Deferred. The two \<^verbatim>\<open>finally\<close>
  clauses run whatever \<^verbatim>\<open>_wait\<close> raises. The wrapping of the reactor's methods
  (\<^verbatim>\<open>_deprecateReactor\<close>) only adds warnings and is left out.
\<close>

definition runFixturesAndTest :: "event list \<Rightarrow> test \<Rightarrow> (failure option \<times> test) option" where
  "runFixturesAndTest evs t =
     (case deferSetUp (t\<lparr>timedOut := False\<rparr>) of
        (r, t1) \<Rightarrow>
          (case wait evs (fromCoroutine r) t1 of
             None \<Rightarrow> None
           | Some (e, t2) \<Rightarrow> Some (e, classCleanUp (cleanUp t2))))"

section \<open>The words of the claims\<close>

text \<open>
  The classification in the words of the claim, in its priority order: the outcome of
  the test body is no failure (\<open>None\<close>) or a failure, and the test has a todo or not.
\<close>

datatype classification =
  UnexpectedSuccess | Passed | ExpectedFailure | AssertionFailed | Interrupted | Skipped | Errored

definition classify :: "todo option \<Rightarrow> failure option \<Rightarrow> classification" where
  "classify todo outcome =
     (case outcome of
        None \<Rightarrow> if todo \<noteq> None then UnexpectedSuccess else Passed
      | Some f \<Rightarrow>
          if todo \<noteq> None \<and> expected (the todo) f then ExpectedFailure
          else if kind f = FailTest then AssertionFailed
          else if kind f = KeyboardInterrupt then Interrupted
          else if kind f = SkipTest then Skipped
          else Errored)"

text \<open>What the result sink receives for a classification.\<close>

fun reported :: "classification \<Rightarrow> todo option \<Rightarrow> failure option \<Rightarrow> report list" where
  "reported UnexpectedSuccess (Some td) _ = [AddUnexpectedSuccess td]"
| "reported Passed _ _ = []"
| "reported ExpectedFailure (Some td) (Some f) = [AddExpectedFailure f td]"
| "reported AssertionFailed _ (Some f) = [AddFailure f]"
| "reported Interrupted _ (Some f) = [AddError f, Stop]"
| "reported Skipped _ (Some f) = [AddSkip (message f)]"
| "reported Errored _ (Some f) = [AddError f]"
| "reported _ _ _ = []"

text \<open>
  The failure the test body ends with: the exception of \<^verbatim>\<open>getTimeout\<close> when it
  raises one; else, by the behaviour of the test method, none when it returns, the
  failure it raises, the timeout failure when its Deferred does not fire in time, the
  \<^verbatim>\<open>TypeError\<close> of \<^verbatim>\<open>_run\<close> when it is a generator function.
\<close>

definition bodyFailure :: "test \<Rightarrow> failure option" where
  "bodyFailure t =
     (case fst (self_getTimeout t) of
        Inl e \<Rightarrow> Some (Failure e [])
      | Inr x \<Rightarrow>
          (case behaviour (testMethod t) of
             Succeeds \<Rightarrow> None
           | Fails f \<Rightarrow> Some f
           | NeverFires \<Rightarrow>
               Some (Failure TimeoutError (''('' @ testMethodName t @ '') still running''))
           | Stalls \<Rightarrow>
               Some (Failure TimeoutError (''('' @ testMethodName t @ '') still running''))
           | GeneratorFunction \<Rightarrow>
               Some (Failure TypeError
                 (repr (testMethod t) @ '' is a generator function and therefore will never run''))))"

text \<open>
  What the drain gets from a cleanup it has popped, in a test whose
  \<^verbatim>\<open>getTimeout\<close> returns: an \<^verbatim>\<open>AttributeError\<close> when the cleanup has no
  \<^verbatim>\<open>__name__\<close>; else its return, the exception it raises, the timeout failure when
  its Deferred is still pending at the timeout, and nothing, ever, when the timeout finds
  its Deferred already called.
\<close>

definition fate :: "action \<Rightarrow> awaited" where
  "fate func =
     (case name func of
        None \<Rightarrow> Raised (Failure AttributeError ''object has no attribute __name__'')
      | Some n \<Rightarrow>
          (case behaviour func of
             Succeeds \<Rightarrow> Returned
           | GeneratorFunction \<Rightarrow> Returned
           | Fails f \<Rightarrow> Raised f
           | NeverFires \<Rightarrow>
               Raised (Failure TimeoutError (''(cleanup function '' @ n @ '') still running''))
           | Stalls \<Rightarrow> Suspended))"

text \<open>
  A cleanup stops the drain when it raises an exception that is no \<^verbatim>\<open>Exception\<close>,
  or when the drain is never resumed after it.
\<close>

definition stops :: "action \<Rightarrow> bool" where
  "stops func =
     (case fate func of
        Returned \<Rightarrow> False
      | Raised f \<Rightarrow> \<not> isException (kind f)
      | Suspended \<Rightarrow> True)"

text \<open>The failure of a cleanup, if it fails.\<close>

definition cleanupFailure :: "action \<Rightarrow> failure list" where
  "cleanupFailure func = (case fate func of Raised f \<Rightarrow> [f] | _ \<Rightarrow> [])"

text \<open>The call of a cleanup, as the trace records it: a cleanup without name is not called.\<close>

definition invocation :: "action \<Rightarrow> step list" where
  "invocation func =
     (case name func of None \<Rightarrow> [] | Some n \<Rightarrow> [Invoked (''cleanup function '' @ n)])"

definition cleanupDescription :: "action \<Rightarrow> string" where
  "cleanupDescription func = ''cleanup function '' @ the (name func)"

text \<open>What \<^verbatim>\<open>onTimeout\<close> reports when it finds the Deferred of a cleanup already called.\<close>

definition stallReport :: "todo option \<Rightarrow> action \<Rightarrow> report list" where
  "stallReport todo func =
     (if fate func = Suspended then
        (let f = Failure TimeoutError (''('' @ cleanupDescription func @ '') still running'') in
         [case todo of
            None \<Rightarrow> AddError f
          | Some td \<Rightarrow> if expected td f then AddExpectedFailure f td else AddError f])
      else [])"

text \<open>The cleanups a cleanup registers when the drain comes to it.\<close>

definition cleanupPushed :: "action \<Rightarrow> action list" where
  "cleanupPushed func = (if name func = None then [] else pushed func)"

text \<open>
  An action has a name when it has a \<^verbatim>\<open>__name__\<close>, and so have the cleanups it
  registers.
\<close>

fun named :: "action \<Rightarrow> bool" where
  "named (Action n r rs b) = (n \<noteq> None \<and> (b = GeneratorFunction \<or> list_all named rs))"

text \<open>
  A cleanup completes when it returns, raises an \<^verbatim>\<open>Exception\<close>, or has its pending
  Deferred failed by the timeout, and the cleanups it registers complete as well. What
  is left out: a \<^verbatim>\<open>KeyboardInterrupt\<close> or \<^verbatim>\<open>SystemExit\<close>, and a Deferred that
  the timeout finds already called. A cleanup without name is not called, and the
  \<^verbatim>\<open>AttributeError\<close> is an \<^verbatim>\<open>Exception\<close>.
\<close>

fun completes :: "action \<Rightarrow> bool" where
  "completes (Action n r rs b) =
     (n = None \<or>
      ((case b of Fails f \<Rightarrow> isException (kind f) | Stalls \<Rightarrow> False | _ \<Rightarrow> True) \<and>
       (b = GeneratorFunction \<or> list_all completes rs)))"


text \<open>
  The order of the unwinding in the words of the claim, last registered first: an action
  on top of the stack comes before the ones below it, and the cleanups it registers
  while it runs sit on top of the stack then, the last of them first.
\<close>

fun unwind :: "action \<Rightarrow> action list" where
  "unwind (Action n r rs b) =
     Action n r rs b #
     (if n = None \<or> b = GeneratorFunction then [] else concat (map unwind (rev rs)))"

definition drainOrder :: "action list \<Rightarrow> action list" where
  "drainOrder stack = concat (map unwind (rev stack))"

text \<open>The actions of a list up to the first that satisfies \<open>P\<close>, and that one.\<close>

fun takeUntil :: "('a \<Rightarrow> bool) \<Rightarrow> 'a list \<Rightarrow> 'a list" where
  "takeUntil P [] = []"
| "takeUntil P (x # xs) = (if P x then [x] else x # takeUntil P xs)"

text \<open>
  The cleanups the drain pops: those of the unwinding, up to the first that stops the
  drain. The drain ends as the last of them says.
\<close>

definition drained :: "action list \<Rightarrow> action list" where
  "drained stack = takeUntil stops (drainOrder stack)"

definition ending :: "action list \<Rightarrow> awaited" where
  "ending stack =
     (if drained stack \<noteq> [] \<and> stops (last (drained stack)) then fate (last (drained stack))
      else Returned)"

text \<open>The failures the drain collects.\<close>

definition collected :: "action list \<Rightarrow> failure list" where
  "collected stack = concat (map cleanupFailure (filter (\<lambda>a. \<not> stops a) (drained stack)))"

text \<open>
  The calls of \<^verbatim>\<open>_wait\<close> made from inside \<^verbatim>\<open>reactor.run()\<close> before it
  ends: the events up to the first that is no such call.
\<close>

fun nestedCalls :: "event list \<Rightarrow> nat" where
  "nestedCalls (CallsWait d evs' # evs) = Suc (nestedCalls evs)"
| "nestedCalls _ = 0"

text \<open>
  \<^verbatim>\<open>reactor.run()\<close> ends when an event comes that is no call of \<^verbatim>\<open>_wait\<close>:
  the Deferred fires, the reactor is crashed, or \<^verbatim>\<open>reactor.run()\<close> raises.
\<close>

fun runEnds :: "event list \<Rightarrow> bool" where
  "runEnds [] = False"
| "runEnds (CallsWait d evs' # evs) = runEnds evs"
| "runEnds (_ # evs) = True"

text \<open>
  The reports a phase or the drain of the cleanups can make by itself: errors, and the
  expected failure \<^verbatim>\<open>onTimeout\<close> reports for a test with a todo.
\<close>

fun drainReport :: "report \<Rightarrow> bool" where
  "drainReport (AddError f) = True"
| "drainReport (AddExpectedFailure f td) = True"
| "drainReport _ = False"

text \<open>
  What the drain of a stack reports, in a test with the given todo: what
  \<^verbatim>\<open>onTimeout\<close> reports when it finds the Deferred of a cleanup already called, and
  after a loop that ends by itself an error for each failure collected.
\<close>

definition drainReports :: "todo option \<Rightarrow> action list \<Rightarrow> report list" where
  "drainReports todo stack =
     concat (map (stallReport todo) (drained stack)) @
     (if ending stack = Returned then map AddError (collected stack) else [])"


text \<open>
  What \<^verbatim>\<open>_cleanUp\<close> and \<^verbatim>\<open>_classCleanUp\<close> report, for the value of
  \<^verbatim>\<open>_passed\<close> they find: the exception of the janitor's
  \<^verbatim>\<open>postCaseCleanup\<close>, the logged errors, the success of a test that has passed,
  left a clean reactor and logged no error, and the exception of the janitor's
  \<^verbatim>\<open>postClassCleanup\<close>.
\<close>

definition cleanUpReports :: "bool \<Rightarrow> test \<Rightarrow> report list" where
  "cleanUpReports p t =
     (case postCaseCleanup t of Inl e \<Rightarrow> [AddError e] | Inr clean \<Rightarrow> []) @
     map AddError (loggedErrors t) @
     (if p \<and> postCaseCleanup t = Inr True \<and> loggedErrors t = [] then [AddSuccess] else []) @
     (case postClassCleanup t of None \<Rightarrow> [] | Some e \<Rightarrow> [AddError e])"

text \<open>The reports \<^verbatim>\<open>addSkip\<close> and \<^verbatim>\<open>addFailure\<close>.\<close>

fun skipOrFailure :: "report \<Rightarrow> bool" where
  "skipOrFailure (AddSkip r) = True"
| "skipOrFailure (AddFailure f) = True"
| "skipOrFailure _ = False"

section \<open>Example tests\<close>

text \<open>
  A function that agrees with Python's \<^verbatim>\<open>float\<close> on the values of the examples
  below: a float is itself; an int of magnitude \<open>2 ^ 1024\<close> or more raises
  \<^verbatim>\<open>OverflowError\<close> (int too large to convert to float), and the small ints of the
  examples are their own value; the string \<^verbatim>\<open>"5"\<close> is \<open>5\<close>, and a string that is
  no number raises \<^verbatim>\<open>ValueError\<close>; \<^verbatim>\<open>None\<close> and an object without
  \<^verbatim>\<open>__float__\<close> raise \<^verbatim>\<open>TypeError\<close>.
\<close>

fun exampleFloat :: "pyobject \<Rightarrow> exc_kind + real" where
  "exampleFloat (PyFloat x) = Inr x"
| "exampleFloat (PyInt n) = (if \<bar>n\<bar> < 2 ^ 1024 then Inr (of_int n) else Inl OverflowError)"
| "exampleFloat (PyStr s) = (if s = ''5'' then Inr 5 else Inl ValueError)"
| "exampleFloat PyNoneObject = Inl TypeError"
| "exampleFloat (PyOther s) = Inl TypeError"

text \<open>A function or method with a \<^verbatim>\<open>__name__\<close>, and a \<^verbatim>\<open>functools.partial\<close>.\<close>

definition namedFunction :: "string \<Rightarrow> action list \<Rightarrow> behaviour \<Rightarrow> action" where
  "namedFunction n rs b = Action (Some n) (''<function '' @ n @ ''>'') rs b"

definition partialObject :: "string \<Rightarrow> action list \<Rightarrow> behaviour \<Rightarrow> action" where
  "partialObject n rs b = Action None (''functools.partial(<function '' @ n @ ''>)'') rs b"

text \<open>
  A test whose fixtures and test method return and register no cleanup, with no
  \<^verbatim>\<open>timeout\<close> attribute on the instance or its class, on a fresh result sink and
  reactor. The examples below are updates of it.
\<close>

definition exampleTest :: test where
  "exampleTest =
     \<lparr>setUp = namedFunction ''setUp'' [] Succeeds,
      testMethodName = ''test_ok'',
      testMethod = namedFunction ''test_ok'' [] Succeeds,
      tearDown = namedFunction ''tearDown'' [] Succeeds,
      getTodo = None, self_parents = [Map.empty, Map.empty], floatBuiltin = exampleFloat,
      DEFAULT_TIMEOUT_DURATION = 120, cleanups = [], passed = False, timedOut = False,
      reports = [], warnings = [], delayedCalls = [], reactorCrashed = False,
      postCaseCleanup = Inr True, postClassCleanup = None, loggedErrors = [], running = [],
      trace = [], nestedWaits = []\<rparr>"

text \<open>The same test with \<^verbatim>\<open>timeout = 2 ** 1024\<close> on its class.\<close>

definition overflowTest :: test where
  "overflowTest = exampleTest\<lparr>self_parents := [Map.empty, [''timeout'' \<mapsto> PyInt (2 ^ 1024)]]\<rparr>"

text \<open>
  A stack of three cleanups, \<^verbatim>\<open>c\<close> registered last: \<^verbatim>\<open>c\<close> raises a
  \<^verbatim>\<open>RuntimeError\<close>, \<^verbatim>\<open>b\<close> a \<^verbatim>\<open>KeyboardInterrupt\<close>, \<^verbatim>\<open>a\<close> returns.
\<close>

definition interruptedCleanups :: test where
  "interruptedCleanups =
     exampleTest\<lparr>cleanups :=
       [namedFunction ''a'' [] Succeeds,
        namedFunction ''b'' [] (Fails (Failure KeyboardInterrupt [])),
        namedFunction ''c'' [] (Fails (Failure RuntimeError ''boom''))]\<rparr>"

text \<open>
  A stack of two cleanups: the Deferred of \<^verbatim>\<open>s\<close>, registered last, has been called
  and its chain waits on a Deferred that never fires; \<^verbatim>\<open>a\<close> returns.
\<close>

definition stalledCleanups :: test where
  "stalledCleanups =
     exampleTest\<lparr>cleanups := [namedFunction ''a'' [] Succeeds, namedFunction ''s'' [] Stalls]\<rparr>"


text \<open>
  A test whose test method returns, after registering a cleanup whose Deferred the
  timeout will find already called.
\<close>

definition stalledCleanupTest :: test where
  "stalledCleanupTest = exampleTest
     \<lparr>testMethod := namedFunction ''test_ok'' [namedFunction ''closeConnection'' [] Stalls] Succeeds\<rparr>"




text \<open>
  A test whose test method registers a cleanup and returns; the cleanup raises a
  \<^verbatim>\<open>KeyboardInterrupt\<close>.
\<close>

definition interruptedTest :: test where
  "interruptedTest = exampleTest
     \<lparr>testMethod := namedFunction ''test_ok''
        [namedFunction ''closeConnection'' [] (Fails (Failure KeyboardInterrupt []))] Succeeds\<rparr>"

text \<open>
  The scenario of the spec: the test method registers a cleanup and returns, and the
  cleanup raises \<^verbatim>\<open>RuntimeError("boom")\<close>.
\<close>

definition leakingTest :: test where
  "leakingTest = exampleTest
     \<lparr>testMethod := namedFunction ''test_ok''
        [namedFunction ''closeConnection'' [] (Fails (Failure RuntimeError ''boom''))] Succeeds\<rparr>"

text \<open>
  A stack of two cleanups: \<^verbatim>\<open>b\<close>, registered last, is a
  \<^verbatim>\<open>functools.partial\<close>; \<^verbatim>\<open>a\<close> returns.
\<close>

definition unnamedCleanups :: test where
  "unnamedCleanups =
     exampleTest\<lparr>cleanups := [namedFunction ''a'' [] Succeeds, partialObject ''b'' [] Succeeds]\<rparr>"

text \<open>A stack of one cleanup that returns, in the test with \<^verbatim>\<open>timeout = 2 ** 1024\<close>.\<close>

definition overflowCleanups :: test where
  "overflowCleanups = overflowTest\<lparr>cleanups := [namedFunction ''a'' [] Succeeds]\<rparr>"



section \<open>The continuation that cancels the timeout\<close>

text \<open>
  C10. The continuation \<^verbatim>\<open>lambda x: call.active() and call.cancel() or x\<close> returns
  its input \<open>x\<close>, whether the scheduled call is still active (it is cancelled then) or
  not (nothing changes then); so the outcome the Deferred carries after the continuation
  is the outcome the phase produced.
\<close>

theorem cancelTimeout_identity:
  "fst (cancelTimeout call x t) = Inr (Inr x) \<and>
   snd (cancelTimeout call x t) =
     (if active call t
      then t\<lparr>delayedCalls := (delayedCalls t)[call := (delayedCalls t ! call)\<lparr>cancelled := True\<rparr>]\<rparr>
      else t) \<and>
   fst (callback call x t) = x \<and>
   status (fst (addBoth call (d\<lparr>status := Fired x\<rparr>) t)) = Fired x"
  by (simp add: cancelTimeout_def cancel_def callback_def addBoth_def split: prod.splits sum.splits)

section \<open>The phase runner on a generator function\<close>

text \<open>
  C8, as stated, fails on \<open>overflowTest\<close>: \<^verbatim>\<open>_run\<close> calls \<^verbatim>\<open>getTimeout()\<close>
  before it looks at the function, and with \<^verbatim>\<open>timeout = 2 ** 1024\<close> the
  \<^verbatim>\<open>OverflowError\<close> of \<^verbatim>\<open>float\<close> leaves \<^verbatim>\<open>getTimeout\<close> and
  \<^verbatim>\<open>_run\<close>. Handed a generator function, \<^verbatim>\<open>_run\<close> raises the
  \<^verbatim>\<open>OverflowError\<close> and returns no Deferred failed with a \<^verbatim>\<open>TypeError\<close>.
\<close>

theorem run_generator_function_counterexample:
  "isgeneratorfunction (namedFunction ''test_gen'' [] GeneratorFunction) \<and>
   run (namedFunction ''test_gen'' [] GeneratorFunction) ''test_gen'' overflowTest =
     (Inl (Failure OverflowError []), overflowTest)"
  by (simp add: isgeneratorfunction_def namedFunction_def run_def self_getTimeout_def
      getTimeout_def overflowTest_def exampleTest_def)

text \<open>
  C8, amended. Let the function handed to \<^verbatim>\<open>_run\<close> be a generator function.
  When \<^verbatim>\<open>getTimeout()\<close> returns, \<^verbatim>\<open>_run\<close> returns a Deferred that has
  already failed with a \<^verbatim>\<open>TypeError\<close>, and the coroutine awaiting it gets the
  \<^verbatim>\<open>TypeError\<close> raised; when \<^verbatim>\<open>getTimeout()\<close> raises, its exception leaves
  \<^verbatim>\<open>_run\<close>. In both cases no call is scheduled on the reactor, the function is
  not called and registers no cleanup, and nothing changes but the warnings of
  \<^verbatim>\<open>getTimeout\<close>.
\<close>

theorem run_generator_function:
  assumes "isgeneratorfunction func"
  shows "(getTimeoutReturns t \<longrightarrow>
            run func funcDescription t =
              (Inr (fail (Failure TypeError
                 (repr func @ '' is a generator function and therefore will never run''))),
               t\<lparr>warnings := warnings t @ snd (self_getTimeout t)\<rparr>) \<and>
            status (fail (Failure TypeError
                 (repr func @ '' is a generator function and therefore will never run''))) =
              Fired (Failed (Failure TypeError
                 (repr func @ '' is a generator function and therefore will never run''))) \<and>
            fst (phase func funcDescription t) =
              Raised (Failure TypeError
                 (repr func @ '' is a generator function and therefore will never run''))) \<and>
         (\<forall>e. fst (self_getTimeout t) = Inl e \<longrightarrow>
            run func funcDescription t =
              (Inl (Failure e []), t\<lparr>warnings := warnings t @ snd (self_getTimeout t)\<rparr>)) \<and>
         delayedCalls (snd (run func funcDescription t)) = delayedCalls t \<and>
         trace (snd (run func funcDescription t)) = trace t \<and>
         cleanups (snd (run func funcDescription t)) = cleanups t"
proof (cases "fst (self_getTimeout t)")
  case (Inl e)
  then show ?thesis
    by (simp add: run_raises getTimeoutReturns_def)
next
  case (Inr x)
  then have "getTimeoutReturns t"
    by (simp add: getTimeoutReturns_def)
  with assms Inr show ?thesis
    by (simp add: run_returns phase_def fail_def await_def)
qed

theorem run_generator_function_witness:
  "isgeneratorfunction (namedFunction ''test_gen'' [] GeneratorFunction) \<and>
   getTimeoutReturns exampleTest \<and>
   run (namedFunction ''test_gen'' [] GeneratorFunction) ''test_gen'' exampleTest =
     (Inr (fail (Failure TypeError
        ''<function test_gen> is a generator function and therefore will never run'')),
      exampleTest) \<and>
   delayedCalls (snd (run (namedFunction ''test_gen'' [] GeneratorFunction) ''test_gen'' exampleTest)) = [] \<and>
   fst (self_getTimeout overflowTest) = Inl OverflowError \<and>
   delayedCalls (snd (run (namedFunction ''test_gen'' [] GeneratorFunction) ''test_gen'' overflowTest)) = []"
  using run_generator_function [of "namedFunction ''test_gen'' [] GeneratorFunction" exampleTest "''test_gen''"]
    run_generator_function [of "namedFunction ''test_gen'' [] GeneratorFunction" overflowTest "''test_gen''"]
  by (simp add: isgeneratorfunction_def namedFunction_def getTimeoutReturns_def self_getTimeout_def
      getTimeout_def overflowTest_def exampleTest_def)

section \<open>The timeout that finds its Deferred already called\<close>

text \<open>
  C3. When \<^verbatim>\<open>onTimeout\<close> runs on a Deferred that has already been called, its
  \<^verbatim>\<open>d.errback(f)\<close> raises \<^verbatim>\<open>AlreadyCalledError\<close>, and \<^verbatim>\<open>onTimeout\<close> crashes
  the reactor, sets \<^verbatim>\<open>_timedOut\<close>, and reports the timeout failure to the result
  sink itself: as an expected failure when the test has a todo that expects it, as an
  error otherwise. Nothing else changes: the Deferred is left as it is, so the coroutine
  awaiting it is not resumed and classifies nothing.
\<close>

theorem onTimeout_already_called:
  assumes "status d \<noteq> Pending"
  shows "errback (Failure TimeoutError (''('' @ funcDescription @ '') still running'')) d t = None \<and>
         onTimeout funcDescription d t =
           (let f = Failure TimeoutError (''('' @ funcDescription @ '') still running'') in
            (d, t\<lparr>reactorCrashed := True, timedOut := True,
                  reports := reports t @
                    [case getTodo t of
                       Some td \<Rightarrow> if expected td f then AddExpectedFailure f td else AddError f
                     | None \<Rightarrow> AddError f]\<rparr>))"
  using assms
  by (cases "status d")
     (simp_all add: onTimeout_def errback_def Let_def addError_def addExpectedFailure_def
        split: option.splits)

theorem onTimeout_already_called_witness:
  "status \<lparr>status = Paused, callbacks = [0]\<rparr> \<noteq> Pending \<and>
   onTimeout ''test_calledButNeverCallback'' \<lparr>status = Paused, callbacks = [0]\<rparr> exampleTest =
     (\<lparr>status = Paused, callbacks = [0]\<rparr>,
      exampleTest\<lparr>reactorCrashed := True, timedOut := True,
        reports := [AddError (Failure TimeoutError ''(test_calledButNeverCallback) still running'')]\<rparr>) \<and>
   reports (snd (onTimeout ''test_expectedFailure'' \<lparr>status = Fired Success, callbacks = []\<rparr>
      (exampleTest\<lparr>getTodo := Some \<lparr>reason = ''i will get it right, eventually'',
         expected = (\<lambda>f. kind f = TimeoutError)\<rparr>\<rparr>))) =
     [AddExpectedFailure (Failure TimeoutError ''(test_expectedFailure) still running'')
        \<lparr>reason = ''i will get it right, eventually'', expected = (\<lambda>f. kind f = TimeoutError)\<rparr>]"
  using onTimeout_already_called [of "\<lparr>status = Paused, callbacks = [0]\<rparr>"
      "''test_calledButNeverCallback''" exampleTest]
    onTimeout_already_called [of "\<lparr>status = Fired Success, callbacks = []\<rparr>"
      "''test_expectedFailure''"
      "exampleTest\<lparr>getTodo := Some \<lparr>reason = ''i will get it right, eventually'',
         expected = (\<lambda>f. kind f = TimeoutError)\<rparr>\<rparr>"]
  by (simp add: exampleTest_def)

section \<open>The re-entrancy guard of the blocking wait\<close>
declare wait.simps [simp del]

text \<open>
  Neither \<^verbatim>\<open>_wait\<close> nor \<^verbatim>\<open>reactor.run()\<close>, with any nested call of
  \<^verbatim>\<open>_wait\<close> inside it, changes anything in the end but the reactor's record of a
  crash and the record of the nested calls: the list \<^verbatim>\<open>running\<close> is as it was.
\<close>

lemma wait_frame:
    "wait evs d t = Some (e, t') \<Longrightarrow> \<exists>c n. t' = t\<lparr>reactorCrashed := c, nestedWaits := n\<rparr>"
  and reactorRun_frame:
    "reactorRun evs rs t = Some (e', rs', t'') \<Longrightarrow>
     \<exists>c n. t'' = t\<lparr>reactorCrashed := c, nestedWaits := n\<rparr>"
proof (induction evs d t and evs rs t arbitrary: e t' and e' rs' t'' rule: wait_reactorRun.induct)
  case (1 evs d t)
  show ?case
  proof (cases "running t \<noteq> []")
    case True
    with "1.prems" have "t' = t\<lparr>reactorCrashed := reactorCrashed t, nestedWaits := nestedWaits t\<rparr>"
      by (simp add: wait.simps)
    then show ?thesis by blast
  next
    case False
    then have empty: "running t = []" by simp
    show ?thesis
    proof (cases "\<exists>x. status d = Fired x")
      case True
      with "1.prems" empty
      have "t' = t\<lparr>reactorCrashed := reactorCrashed t, nestedWaits := nestedWaits t\<rparr>"
        by (auto simp add: wait.simps popRunning_def)
      then show ?thesis by blast
    next
      case notFired: False
      then have none: "(case status d of Fired x \<Rightarrow> [x] | _ \<Rightarrow> []) = []"
        by (cases "status d") simp_all
      with "1.prems" empty obtain e2 rs2 t2 where
        r: "reactorRun evs [] (t\<lparr>running := running t @ [()]\<rparr>) = Some (e2, rs2, t2)"
        and t': "t' = popRunning t2"
        by (auto simp: wait.simps Let_def split: option.splits if_splits)
      have "\<exists>c n. t2 = t\<lparr>running := running t @ [()]\<rparr>\<lparr>reactorCrashed := c, nestedWaits := n\<rparr>"
        by (rule "1.IH" [OF False refl none [symmetric] _ r]) simp
      then obtain c n where
        "t2 = t\<lparr>running := running t @ [()]\<rparr>\<lparr>reactorCrashed := c, nestedWaits := n\<rparr>"
        by blast
      with t' empty have "t' = t\<lparr>reactorCrashed := c, nestedWaits := n\<rparr>"
        by (simp add: popRunning_def)
      then show ?thesis by blast
    qed
  qed
next
  case (3 x evs results t)
  then have "t'' = t\<lparr>reactorCrashed := True, nestedWaits := nestedWaits t\<rparr>" by auto
  then show ?case by blast
next
  case (4 evs results t)
  then have "t'' = t\<lparr>reactorCrashed := True, nestedWaits := nestedWaits t\<rparr>" by auto
  then show ?case by blast
next
  case (5 e evs results t)
  then have "t'' = t\<lparr>reactorCrashed := reactorCrashed t, nestedWaits := nestedWaits t\<rparr>" by simp
  then show ?case by blast
next
  case (6 d' evs' evs results t)
  from "6.prems" obtain e1 t1 where
    w: "wait evs' d' t = Some (e1, t1)" and
    r: "reactorRun evs results (t1\<lparr>nestedWaits := nestedWaits t1 @ [e1]\<rparr>) = Some (e', rs', t'')"
    by (auto split: option.splits)
  from "6.IH"(1) [OF w] obtain c1 n1 where "t1 = t\<lparr>reactorCrashed := c1, nestedWaits := n1\<rparr>"
    by blast
  moreover from "6.IH"(2) [OF w refl r] obtain c2 n2 where
    "t'' = t1\<lparr>nestedWaits := nestedWaits t1 @ [e1]\<rparr>\<lparr>reactorCrashed := c2, nestedWaits := n2\<rparr>"
    by blast
  ultimately have "t'' = t\<lparr>reactorCrashed := c2, nestedWaits := n2\<rparr>" by simp
  then show ?case by blast
qed simp

lemma wait_fired:
  assumes "status d = Fired x"
  shows "\<exists>e t'. wait evs d t = Some (e, t')"
  using assms by (simp add: wait.simps Let_def)

text \<open>
  While the guard is set, every call of \<^verbatim>\<open>_wait\<close> from inside
  \<^verbatim>\<open>reactor.run()\<close> raises the \<^verbatim>\<open>RuntimeError\<close>, and \<^verbatim>\<open>reactor.run()\<close>
  goes on to the next event.
\<close>

lemma reactorRun_guarded:
  "running t \<noteq> [] \<Longrightarrow>
   (reactorRun evs rs t = None \<longleftrightarrow> \<not> runEnds evs) \<and>
   (\<forall>e rs' t'. reactorRun evs rs t = Some (e, rs', t') \<longrightarrow>
      (\<exists>c. t' = t\<lparr>reactorCrashed := c,
                   nestedWaits := nestedWaits t @
                     replicate (nestedCalls evs)
                       (Some (Failure RuntimeError ''_wait is not reentrant''))\<rparr>))"
proof (induction evs arbitrary: t)
  case Nil
  then show ?case by simp
next
  case (Cons ev evs)
  show ?case
  proof (cases ev)
    case (Fires x)
    have "\<exists>c. t' = t\<lparr>reactorCrashed := c,
                 nestedWaits := nestedWaits t @
                   replicate (nestedCalls (ev # evs))
                     (Some (Failure RuntimeError ''_wait is not reentrant''))\<rparr>"
      if "reactorRun (ev # evs) rs t = Some (e, rs', t')" for e rs' t'
    proof -
      from that Fires have "t' = t\<lparr>reactorCrashed := True\<rparr>" by simp
      then show ?thesis
        by (intro exI [of _ True]) (simp add: Fires)
    qed
    moreover have "reactorRun (ev # evs) rs t \<noteq> None" "runEnds (ev # evs)"
      by (simp_all add: Fires)
    ultimately show ?thesis by blast
  next
    case Crashes
    have "\<exists>c. t' = t\<lparr>reactorCrashed := c,
                 nestedWaits := nestedWaits t @
                   replicate (nestedCalls (ev # evs))
                     (Some (Failure RuntimeError ''_wait is not reentrant''))\<rparr>"
      if "reactorRun (ev # evs) rs t = Some (e, rs', t')" for e rs' t'
    proof -
      from that Crashes have "t' = t\<lparr>reactorCrashed := True\<rparr>" by simp
      then show ?thesis
        by (intro exI [of _ True]) (simp add: Crashes)
    qed
    moreover have "reactorRun (ev # evs) rs t \<noteq> None" "runEnds (ev # evs)"
      by (simp_all add: Crashes)
    ultimately show ?thesis by blast
  next
    case (RunRaises f)
    have "\<exists>c. t' = t\<lparr>reactorCrashed := c,
                 nestedWaits := nestedWaits t @
                   replicate (nestedCalls (ev # evs))
                     (Some (Failure RuntimeError ''_wait is not reentrant''))\<rparr>"
      if "reactorRun (ev # evs) rs t = Some (e, rs', t')" for e rs' t'
    proof -
      from that RunRaises have "t' = t" by simp
      then show ?thesis
        by (intro exI [of _ "reactorCrashed t"]) (simp add: RunRaises)
    qed
    moreover have "reactorRun (ev # evs) rs t \<noteq> None" "runEnds (ev # evs)"
      by (simp_all add: RunRaises)
    ultimately show ?thesis by blast
  next
    case (CallsWait d' evs')
    define t1 where "t1 = t\<lparr>nestedWaits := nestedWaits t @
        [Some (Failure RuntimeError ''_wait is not reentrant'')]\<rparr>"
    have step: "reactorRun (ev # evs) rs t = reactorRun evs rs t1"
      using Cons.prems CallsWait by (simp add: wait.simps t1_def)
    have "running t1 \<noteq> []"
      using Cons.prems by (simp add: t1_def)
    then have ih:
      "(reactorRun evs rs t1 = None \<longleftrightarrow> \<not> runEnds evs) \<and>
       (\<forall>e rs' t'. reactorRun evs rs t1 = Some (e, rs', t') \<longrightarrow>
          (\<exists>c. t' = t1\<lparr>reactorCrashed := c,
                 nestedWaits := nestedWaits t1 @
                   replicate (nestedCalls evs)
                     (Some (Failure RuntimeError ''_wait is not reentrant''))\<rparr>))"
      by (rule Cons.IH)
    then have ih1: "reactorRun evs rs t1 = None \<longleftrightarrow> \<not> runEnds evs"
      by (rule conjunct1)
    from ih have ih2:
      "\<forall>e rs' t'. reactorRun evs rs t1 = Some (e, rs', t') \<longrightarrow>
          (\<exists>c. t' = t1\<lparr>reactorCrashed := c,
                 nestedWaits := nestedWaits t1 @
                   replicate (nestedCalls evs)
                     (Some (Failure RuntimeError ''_wait is not reentrant''))\<rparr>)"
      by (rule conjunct2)
    have "\<exists>c. t' = t\<lparr>reactorCrashed := c,
                 nestedWaits := nestedWaits t @
                   replicate (nestedCalls (ev # evs))
                     (Some (Failure RuntimeError ''_wait is not reentrant''))\<rparr>"
      if "reactorRun (ev # evs) rs t = Some (e, rs', t')" for e rs' t'
    proof -
      from that step have "reactorRun evs rs t1 = Some (e, rs', t')"
        by simp
      from ih2 [rule_format, OF this] obtain c where
        "t' = t1\<lparr>reactorCrashed := c,
                 nestedWaits := nestedWaits t1 @
                   replicate (nestedCalls evs)
                     (Some (Failure RuntimeError ''_wait is not reentrant''))\<rparr>" ..
      then have "t' = t\<lparr>reactorCrashed := c,
                 nestedWaits := nestedWaits t @
                   replicate (nestedCalls (ev # evs))
                     (Some (Failure RuntimeError ''_wait is not reentrant''))\<rparr>"
        by (simp add: t1_def CallsWait)
      then show ?thesis by (intro exI [of _ c])
    qed
    moreover have "runEnds (ev # evs) = runEnds evs"
      by (simp add: CallsWait)
    then have "reactorRun (ev # evs) rs t = None \<longleftrightarrow> \<not> runEnds (ev # evs)"
      unfolding step using ih1 by simp
    ultimately show ?thesis by blast
  qed
qed

text \<open>
  C7. A call of \<^verbatim>\<open>_wait\<close> while the guard is set (\<^verbatim>\<open>running\<close> is not empty)
  raises the \<^verbatim>\<open>RuntimeError\<close> at once and changes nothing, the guard included. A
  call that is admitted (\<^verbatim>\<open>running\<close> is empty) sets the guard while it is in
  flight: every call of \<^verbatim>\<open>_wait\<close> made from inside its \<^verbatim>\<open>reactor.run()\<close>
  raises the \<^verbatim>\<open>RuntimeError\<close>, and when \<^verbatim>\<open>reactor.run()\<close> is not entered,
  no such call is made. The admitted call leaves \<^verbatim>\<open>running\<close> empty however it
  ends, by a return or by an exception; it ends if the Deferred has fired already or
  \<^verbatim>\<open>reactor.run()\<close> ends, and only then.
\<close>

theorem wait_not_reentrant:
  "(running t \<noteq> [] \<longrightarrow>
      wait evs d t = Some (Some (Failure RuntimeError ''_wait is not reentrant''), t)) \<and>
   (running t = [] \<longrightarrow>
      (\<forall>e t'. wait evs d t = Some (e, t') \<longrightarrow>
         running t' = [] \<and>
         nestedWaits t' = nestedWaits t @
           replicate (case status d of Fired x \<Rightarrow> 0 | _ \<Rightarrow> nestedCalls evs)
             (Some (Failure RuntimeError ''_wait is not reentrant''))) \<and>
      (wait evs d t = None \<longleftrightarrow> (\<forall>x. status d \<noteq> Fired x) \<and> \<not> runEnds evs))"
proof (intro conjI impI)
  assume "running t \<noteq> []"
  then show "wait evs d t = Some (Some (Failure RuntimeError ''_wait is not reentrant''), t)"
    by (simp add: wait.simps)
next
  assume empty: "running t = []"
  define t1 where "t1 = t\<lparr>running := running t @ [()]\<rparr>"
  have guard: "running t1 \<noteq> []"
    by (simp add: t1_def)
  note guarded = reactorRun_guarded [OF guard, of evs "[]"]
  show "\<forall>e t'. wait evs d t = Some (e, t') \<longrightarrow>
         running t' = [] \<and>
         nestedWaits t' = nestedWaits t @
           replicate (case status d of Fired x \<Rightarrow> 0 | _ \<Rightarrow> nestedCalls evs)
             (Some (Failure RuntimeError ''_wait is not reentrant''))"
  proof (intro allI impI)
    fix e t'
    assume w: "wait evs d t = Some (e, t')"
    show "running t' = [] \<and>
         nestedWaits t' = nestedWaits t @
           replicate (case status d of Fired x \<Rightarrow> 0 | _ \<Rightarrow> nestedCalls evs)
             (Some (Failure RuntimeError ''_wait is not reentrant''))"
    proof (cases "\<exists>x. status d = Fired x")
      case True
      with w empty show ?thesis
        by (auto simp: wait.simps popRunning_def)
    next
      case False
      then have none: "(case status d of Fired x \<Rightarrow> [x] | _ \<Rightarrow> []) = []"
        and count: "(case status d of Fired x \<Rightarrow> 0 | _ \<Rightarrow> nestedCalls evs) = nestedCalls evs"
        by (cases "status d"; simp)+
      with w empty obtain e2 rs2 t2 where
        r: "reactorRun evs [] t1 = Some (e2, rs2, t2)" and t': "t' = popRunning t2"
        by (auto simp: wait.simps Let_def t1_def split: option.splits if_splits)
      from guarded r obtain c where
        "t2 = t1\<lparr>reactorCrashed := c,
                 nestedWaits := nestedWaits t1 @
                   replicate (nestedCalls evs)
                     (Some (Failure RuntimeError ''_wait is not reentrant''))\<rparr>"
        by blast
      with t' empty count show ?thesis
        by (simp add: popRunning_def t1_def)
    qed
  qed
  show "wait evs d t = None \<longleftrightarrow> (\<forall>x. status d \<noteq> Fired x) \<and> \<not> runEnds evs"
  proof (cases "\<exists>x. status d = Fired x")
    case True
    with empty show ?thesis
      by (auto simp: wait.simps)
  next
    case False
    then have none: "(case status d of Fired x \<Rightarrow> [x] | _ \<Rightarrow> []) = []"
      by (cases "status d") simp_all
    have "wait evs d t = None \<longleftrightarrow> reactorRun evs [] t1 = None"
      using empty none
      by (auto simp: wait.simps Let_def t1_def split: option.splits if_splits)
    with guarded False show ?thesis
      by simp
  qed
qed

theorem wait_not_reentrant_witness:
  "wait [Crashes] \<lparr>status = Pending, callbacks = []\<rparr> (exampleTest\<lparr>running := [()]\<rparr>) =
     Some (Some (Failure RuntimeError ''_wait is not reentrant''), exampleTest\<lparr>running := [()]\<rparr>) \<and>
   running exampleTest = [] \<and>
   wait [CallsWait \<lparr>status = Pending, callbacks = []\<rparr> [Crashes], Fires Success]
     \<lparr>status = Pending, callbacks = []\<rparr> exampleTest =
     Some (None, exampleTest\<lparr>reactorCrashed := True,
       nestedWaits := [Some (Failure RuntimeError ''_wait is not reentrant'')]\<rparr>) \<and>
   wait [CallsWait \<lparr>status = Pending, callbacks = []\<rparr> [Crashes]]
     \<lparr>status = Pending, callbacks = []\<rparr> exampleTest = None"
proof -
  have nested: "running (exampleTest\<lparr>running := [()]\<rparr>) \<noteq> []"
    by simp
  have admitted: "running exampleTest = []"
    by (simp add: exampleTest_def)
  have returns: "wait [CallsWait \<lparr>status = Pending, callbacks = []\<rparr> [Crashes], Fires Success]
      \<lparr>status = Pending, callbacks = []\<rparr> exampleTest =
      Some (None, exampleTest\<lparr>reactorCrashed := True,
        nestedWaits := [Some (Failure RuntimeError ''_wait is not reentrant'')]\<rparr>)"
    by (simp add: wait.simps exampleTest_def popRunning_def)
  from wait_not_reentrant [of "exampleTest\<lparr>running := [()]\<rparr>" "[Crashes]"
      "\<lparr>status = Pending, callbacks = []\<rparr>"] nested
  have "wait [Crashes] \<lparr>status = Pending, callbacks = []\<rparr> (exampleTest\<lparr>running := [()]\<rparr>) =
     Some (Some (Failure RuntimeError ''_wait is not reentrant''), exampleTest\<lparr>running := [()]\<rparr>)"
    by blast
  moreover from wait_not_reentrant [of exampleTest
      "[CallsWait \<lparr>status = Pending, callbacks = []\<rparr> [Crashes]]"
      "\<lparr>status = Pending, callbacks = []\<rparr>"] admitted
  have "wait [CallsWait \<lparr>status = Pending, callbacks = []\<rparr> [Crashes]]
     \<lparr>status = Pending, callbacks = []\<rparr> exampleTest = None"
    by simp
  ultimately show ?thesis
    using admitted returns by simp
qed

section \<open>The timeout attribute\<close>

text \<open>
  C9, as stated, fails: \<^verbatim>\<open>getTimeout\<close> does not always return a float. With
  \<^verbatim>\<open>timeout = 2 ** 1024\<close> on the test's class, \<^verbatim>\<open>float(timeout)\<close> raises
  \<^verbatim>\<open>OverflowError\<close>, which \<^verbatim>\<open>except (ValueError, TypeError)\<close> does not catch:
  the exception leaves \<^verbatim>\<open>getTimeout\<close>, with no warning and no default.
\<close>

theorem getTimeout_overflow_counterexample:
  "getTimeout exampleFloat 120 [Map.empty, [''timeout'' \<mapsto> PyInt (2 ^ 1024)]] =
     (Inl OverflowError, [])"
  by (simp add: getTimeout_def)

text \<open>
  C9, amended. Let \<open>v\<close> be the resolved \<^verbatim>\<open>timeout\<close> attribute. When \<^verbatim>\<open>float\<close>
  accepts \<open>v\<close>, \<^verbatim>\<open>getTimeout\<close> returns \<^verbatim>\<open>float(v)\<close> and warns of nothing; when
  \<^verbatim>\<open>float\<close> rejects \<open>v\<close> with \<^verbatim>\<open>ValueError\<close> or \<^verbatim>\<open>TypeError\<close>, it issues the
  \<^verbatim>\<open>DeprecationWarning\<close> and returns the default; an exception of another class
  leaves \<^verbatim>\<open>getTimeout\<close>. The warning and the default come in the second case only.
\<close>

theorem getTimeout_float:
  "(\<forall>x. float (acquireAttribute parents ''timeout'' (PyFloat DEFAULT)) = Inr x \<longrightarrow>
      getTimeout float DEFAULT parents = (Inr x, [])) \<and>
   (float (acquireAttribute parents ''timeout'' (PyFloat DEFAULT)) = Inl ValueError \<or>
    float (acquireAttribute parents ''timeout'' (PyFloat DEFAULT)) = Inl TypeError \<longrightarrow>
      getTimeout float DEFAULT parents =
        (Inr DEFAULT, [DeprecationWarning ''timeout attribute needs to be a number.''])) \<and>
   (\<forall>e. float (acquireAttribute parents ''timeout'' (PyFloat DEFAULT)) = Inl e \<longrightarrow>
      e \<noteq> ValueError \<longrightarrow> e \<noteq> TypeError \<longrightarrow>
      getTimeout float DEFAULT parents = (Inl e, [])) \<and>
   (snd (getTimeout float DEFAULT parents) \<noteq> [] \<longleftrightarrow>
      float (acquireAttribute parents ''timeout'' (PyFloat DEFAULT)) = Inl ValueError \<or>
      float (acquireAttribute parents ''timeout'' (PyFloat DEFAULT)) = Inl TypeError)"
  by (auto simp: getTimeout_def Let_def split: sum.splits)

theorem getTimeout_float_witness:
  "getTimeout exampleFloat 120 [Map.empty, [''timeout'' \<mapsto> PyStr ''5'']] = (Inr 5, []) \<and>
   getTimeout exampleFloat 120 [[''timeout'' \<mapsto> PyStr ''orange'']] =
     (Inr 120, [DeprecationWarning ''timeout attribute needs to be a number.'']) \<and>
   getTimeout exampleFloat 120 [[''timeout'' \<mapsto> PyOther ''method'']] =
     (Inr 120, [DeprecationWarning ''timeout attribute needs to be a number.'']) \<and>
   getTimeout exampleFloat 120 [Map.empty, Map.empty] = (Inr 120, []) \<and>
   getTimeout exampleFloat 120 [[''timeout'' \<mapsto> PyInt 0], [''timeout'' \<mapsto> PyInt (2 ^ 1024)]] =
     (Inr 0, [])"
  using getTimeout_float [of exampleFloat "[Map.empty, [''timeout'' \<mapsto> PyStr ''5'']]" 120]
    getTimeout_float [of exampleFloat "[[''timeout'' \<mapsto> PyStr ''orange'']]" 120]
    getTimeout_float [of exampleFloat "[[''timeout'' \<mapsto> PyOther ''method'']]" 120]
    getTimeout_float [of exampleFloat "[Map.empty, Map.empty]" 120]
    getTimeout_float [of exampleFloat
      "[[''timeout'' \<mapsto> PyInt 0], [''timeout'' \<mapsto> PyInt (2 ^ 1024)]]" 120]
  by simp

section \<open>The classification of the test method's outcome\<close>

text \<open>
  C4. Running the test method reports its outcome to the result sink under exactly one
  classification, the first that applies in the order of \<open>classify\<close>: unexpected
  success, passed (nothing is reported yet, \<^verbatim>\<open>_passed\<close> is set), expected failure,
  failure, error with \<^verbatim>\<open>stop()\<close> for a \<^verbatim>\<open>KeyboardInterrupt\<close>, skip, error.
  \<^verbatim>\<open>_passed\<close> is set for the classification passed and left as it was for the
  others. When the timeout finds the Deferred of the test method already called, the
  report is the one \<^verbatim>\<open>onTimeout\<close> makes, which is the classification of the timeout
  failure as well.
\<close>

theorem runTestMethod_classification:
  "reports (snd (runTestMethod t)) =
     reports t @ reported (classify (getTodo t) (bodyFailure t)) (getTodo t) (bodyFailure t) \<and>
   passed (snd (runTestMethod t)) = (classify (getTodo t) (bodyFailure t) = Passed \<or> passed t)"
proof (cases "fst (self_getTimeout t)")
  case (Inl e)
  then have "phase (testMethod t) (testMethodName t) (step RunningTest t) =
      (Raised (Failure e []),
       (step RunningTest t)\<lparr>warnings := warnings t @ snd (self_getTimeout t)\<rparr>)"
    using phase_raises [of "step RunningTest t" e]
    by (simp add: step_def self_getTimeout_def)
  with Inl show ?thesis
    by (cases "getTodo t")
       (auto simp: runTestMethod_def step_def classify_def bodyFailure_def
          ebDeferTestMethod_def Let_def addExpectedFailure_def addFailure_def addError_def
          addSkip_def stop_def getSkipReason_def)
next
  case (Inr x)
  then have "getTimeoutReturns (step RunningTest t)"
    by (simp add: getTimeoutReturns_def step_def self_getTimeout_def)
  with Inr show ?thesis
    by (cases "behaviour (testMethod t)"; cases "getTodo t")
       (auto simp: runTestMethod_def phase_simps step_def classify_def bodyFailure_def
          ebDeferTestMethod_def Let_def addUnexpectedSuccess_def addExpectedFailure_def
          addFailure_def addError_def addSkip_def stop_def getSkipReason_def)
qed

theorem runTestMethod_classification_witness:
  "reports (snd (runTestMethod exampleTest)) = [] \<and> passed (snd (runTestMethod exampleTest)) \<and>
   reports (snd (runTestMethod
      (exampleTest\<lparr>getTodo := Some \<lparr>reason = ''Expected failure'', expected = (\<lambda>f. kind f = RuntimeError)\<rparr>\<rparr>))) =
     [AddUnexpectedSuccess \<lparr>reason = ''Expected failure'', expected = (\<lambda>f. kind f = RuntimeError)\<rparr>] \<and>
   reports (snd (runTestMethod
      (exampleTest\<lparr>testMethodName := ''test_expectedFailure'', testMethod := namedFunction ''test_expectedFailure'' [] (Fails (Failure RuntimeError ''todo'')),
         getTodo := Some \<lparr>reason = ''Expected failure'', expected = (\<lambda>f. kind f = RuntimeError)\<rparr>\<rparr>))) =
     [AddExpectedFailure (Failure RuntimeError ''todo'')
        \<lparr>reason = ''Expected failure'', expected = (\<lambda>f. kind f = RuntimeError)\<rparr>] \<and>
   reports (snd (runTestMethod
      (exampleTest\<lparr>testMethodName := ''test_fail'', testMethod := namedFunction ''test_fail'' [] (Fails (Failure FailTest ''I fail''))\<rparr>))) =
     [AddFailure (Failure FailTest ''I fail'')] \<and>
   reports (snd (runTestMethod
      (exampleTest\<lparr>testMethodName := ''test_interrupt'', testMethod := namedFunction ''test_interrupt'' [] (Fails (Failure KeyboardInterrupt []))\<rparr>))) =
     [AddError (Failure KeyboardInterrupt []), Stop] \<and>
   reports (snd (runTestMethod
      (exampleTest\<lparr>testMethodName := ''test_skip'', testMethod := namedFunction ''test_skip'' [] (Fails (Failure SkipTest ''skip''))\<rparr>))) =
     [AddSkip ''skip''] \<and>
   reports (snd (runTestMethod
      (exampleTest\<lparr>testMethodName := ''test_timeout'', testMethod := namedFunction ''test_timeout'' [] NeverFires\<rparr>))) =
     [AddError (Failure TimeoutError ''(test_timeout) still running'')]"
  using runTestMethod_classification [of exampleTest]
    runTestMethod_classification [of
      "exampleTest\<lparr>getTodo := Some \<lparr>reason = ''Expected failure'', expected = (\<lambda>f. kind f = RuntimeError)\<rparr>\<rparr>"]
    runTestMethod_classification [of
      "exampleTest\<lparr>testMethodName := ''test_expectedFailure'', testMethod := namedFunction ''test_expectedFailure'' [] (Fails (Failure RuntimeError ''todo'')),
         getTodo := Some \<lparr>reason = ''Expected failure'', expected = (\<lambda>f. kind f = RuntimeError)\<rparr>\<rparr>"]
    runTestMethod_classification [of
      "exampleTest\<lparr>testMethodName := ''test_fail'', testMethod := namedFunction ''test_fail'' [] (Fails (Failure FailTest ''I fail''))\<rparr>"]
    runTestMethod_classification [of
      "exampleTest\<lparr>testMethodName := ''test_interrupt'', testMethod := namedFunction ''test_interrupt'' [] (Fails (Failure KeyboardInterrupt []))\<rparr>"]
    runTestMethod_classification [of
      "exampleTest\<lparr>testMethodName := ''test_skip'', testMethod := namedFunction ''test_skip'' [] (Fails (Failure SkipTest ''skip''))\<rparr>"]
    runTestMethod_classification [of
      "exampleTest\<lparr>testMethodName := ''test_timeout'', testMethod := namedFunction ''test_timeout'' [] NeverFires\<rparr>"]
  by (simp add: exampleTest_def namedFunction_def classify_def bodyFailure_def self_getTimeout_def
      getTimeout_def)

section \<open>The drain of the cleanup stack\<close>

lemma reportErrors_eq:
  "reportErrors fs t =
     (if fs = [] then t else t\<lparr>reports := reports t @ map AddError fs, passed := False\<rparr>)"
  by (induction fs arbitrary: t) (simp_all add: addError_def)

lemma getTimeoutReturns_fixture:
  "fixture t' = fixture t \<Longrightarrow> getTimeoutReturns t' = getTimeoutReturns t"
  by (simp add: fixture_def getTimeoutReturns_def self_getTimeout_def)

lemma getTodo_fixture: "fixture t' = fixture t \<Longrightarrow> getTodo t' = getTodo t"
  by (simp add: fixture_def)

lemma fixture_cleanups [simp]: "fixture (t\<lparr>cleanups := cs\<rparr>) = fixture t"
  by (simp add: fixture_def)

lemma fixture_step [simp]: "fixture (step s t) = fixture t"
  by (simp add: fixture_def step_def)

lemma getTimeoutReturns_updates [simp]:
  "getTimeoutReturns (t\<lparr>cleanups := cs\<rparr>) = getTimeoutReturns t"
  "getTimeoutReturns (t\<lparr>trace := tr\<rparr>) = getTimeoutReturns t"
  "getTimeoutReturns (t\<lparr>reports := rs\<rparr>) = getTimeoutReturns t"
  "getTimeoutReturns (t\<lparr>passed := p\<rparr>) = getTimeoutReturns t"
  "getTimeoutReturns (t\<lparr>timedOut := b\<rparr>) = getTimeoutReturns t"
  by (simp_all add: getTimeoutReturns_def self_getTimeout_def)

lemma getTimeoutReturns_step [simp]: "getTimeoutReturns (step s t) = getTimeoutReturns t"
  by (simp add: getTimeoutReturns_def self_getTimeout_def step_def)

text \<open>
  One turn of the loop, in a test whose \<^verbatim>\<open>getTimeout\<close> returns: the drain gets what
  \<open>fate\<close> says, a cleanup with a name is called and registers its cleanups, and nothing
  is reported unless the timeout finds the Deferred already called.
\<close>

lemma runCleanup_step:
  assumes "getTimeoutReturns t"
  shows "fst (runCleanup a t) = fate a"
    and "trace (snd (runCleanup a t)) = trace t @ invocation a"
    and "cleanups (snd (runCleanup a t)) = cleanups t @ cleanupPushed a"
    and "reports (snd (runCleanup a t)) = reports t @ stallReport (getTodo t) a"
proof -
  show "cleanups (snd (runCleanup a t)) = cleanups t @ cleanupPushed a"
    using assms by (simp add: cleanups_runCleanup cleanupPushed_def)
  show "fst (runCleanup a t) = fate a"
    using assms
    by (cases "name a"; cases "behaviour a")
       (simp_all add: runCleanup_def fate_def phase_simps cleanupLambda_def Let_def)
  show "trace (snd (runCleanup a t)) = trace t @ invocation a"
    using assms
    by (cases "name a"; cases "behaviour a")
       (simp_all add: runCleanup_def invocation_def phase_simps cleanupLambda_def Let_def)
  show "reports (snd (runCleanup a t)) = reports t @ stallReport (getTodo t) a"
    using assms
    by (cases "name a"; cases "behaviour a")
       (simp_all add: runCleanup_def stallReport_def fate_def cleanupDescription_def phase_simps
          cleanupLambda_def Let_def)
qed

lemma passed_runCleanup: "passed (snd (runCleanup a t)) = passed t"
  by (cases "name a") (simp_all add: runCleanup_def passed_phase)

lemma fixture_runCleanup: "fixture (snd (runCleanup a t)) = fixture t"
  by (cases "name a") (simp_all add: runCleanup_def fixture_phase)

text \<open>The unwinding of a stack, from its top.\<close>

lemma unwind_pushed: "unwind a = a # drainOrder (cleanupPushed a)"
  by (cases a) (simp add: cleanupPushed_def pushed_def drainOrder_def)

lemma drainOrder_Nil [simp]: "drainOrder [] = []"
  by (simp add: drainOrder_def)

lemma drainOrder_snoc: "drainOrder (cs @ [a]) = a # drainOrder (cs @ cleanupPushed a)"
  by (simp add: drainOrder_def unwind_pushed)

lemma drained_Nil [simp]: "drained [] = []"
  by (simp add: drained_def)

lemma drained_snoc:
  "drained (cs @ [a]) = (if stops a then [a] else a # drained (cs @ cleanupPushed a))"
  by (simp add: drained_def drainOrder_snoc)

lemma ending_Nil [simp]: "ending [] = Returned"
  by (simp add: ending_def)

lemma ending_snoc:
  "ending (cs @ [a]) = (if stops a then fate a else ending (cs @ cleanupPushed a))"
  by (simp add: ending_def drained_snoc)

lemma collected_Nil [simp]: "collected [] = []"
  by (simp add: collected_def)

lemma collected_snoc:
  "collected (cs @ [a]) =
     (if stops a then [] else cleanupFailure a @ collected (cs @ cleanupPushed a))"
  by (simp add: collected_def drained_snoc)

lemma stops_fate:
  "stops a \<longleftrightarrow> fate a = Suspended \<or> (\<exists>f. fate a = Raised f \<and> \<not> isException (kind f))"
  by (cases "fate a") (simp_all add: stops_def)

lemma stallReport_not_Suspended: "fate a \<noteq> Suspended \<Longrightarrow> stallReport todo a = []"
  by (simp add: stallReport_def)

text \<open>
  The loop, in a test whose \<^verbatim>\<open>getTimeout\<close> returns: it pops the cleanups of
  \<open>drained\<close>, in this order, calls those that have a name, collects the failures of
  those that do not stop it, and ends as \<open>ending\<close> says. It reports nothing but what
  \<^verbatim>\<open>onTimeout\<close> reports.
\<close>

lemma cleanupsLoop_drained:
  "getTimeoutReturns t \<Longrightarrow>
   fst (cleanupsLoop fs t) = (ending (cleanups t), fs @ collected (cleanups t)) \<and>
   trace (snd (cleanupsLoop fs t)) = trace t @ concat (map invocation (drained (cleanups t))) \<and>
   reports (snd (cleanupsLoop fs t)) =
     reports t @ concat (map (stallReport (getTodo t)) (drained (cleanups t))) \<and>
   (ending (cleanups t) = Returned \<longrightarrow> cleanups (snd (cleanupsLoop fs t)) = [])"
proof (induction fs t rule: cleanupsLoop.induct)
  case (1 failures t)
  show ?case
  proof (cases "cleanups t = []")
    case True
    then show ?thesis
      by (simp add: cleanupsLoop.simps [of failures t])
  next
    case False
    define a where "a = last (cleanups t)"
    define cs where "cs = butlast (cleanups t)"
    define t1 where "t1 = t\<lparr>cleanups := butlast (cleanups t)\<rparr>"
    define t2 where "t2 = snd (runCleanup a t1)"
    have stack: "cleanups t = cs @ [a]"
      using False by (simp add: a_def cs_def)
    have pos: "0 < length (cleanups t)"
      using False by simp
    have g1: "getTimeoutReturns t1"
      using "1.prems" by (simp add: t1_def)
    have rc: "runCleanup a t1 = (fate a, t2)"
      using runCleanup_step(1) [OF g1, of a] by (simp add: t2_def prod_eq_iff)
    have tr2: "trace t2 = trace t @ invocation a"
      and cl2: "cleanups t2 = cs @ cleanupPushed a"
      and rp2: "reports t2 = reports t @ stallReport (getTodo t) a"
      using runCleanup_step(2-4) [OF g1, of a] by (simp_all add: t2_def t1_def cs_def)
    have fx2: "fixture t2 = fixture t"
      using fixture_runCleanup [of a t1] by (simp add: t2_def t1_def)
    have g2: "getTimeoutReturns t2"
      using "1.prems" getTimeoutReturns_fixture [OF fx2] by simp
    have td2: "getTodo t2 = getTodo t"
      by (rule getTodo_fixture [OF fx2])
    have unfolded: "cleanupsLoop failures t =
        (case fate a of
           Returned \<Rightarrow> cleanupsLoop failures t2
         | Raised f \<Rightarrow> if isException (kind f) then cleanupsLoop (failures @ [f]) t2
                        else ((Raised f, failures), t2)
         | Suspended \<Rightarrow> ((Suspended, failures), t2))"
      using False rc
      by (simp add: cleanupsLoop.simps [of failures t] a_def [symmetric] t1_def [symmetric])
    show ?thesis
    proof (cases "fate a")
      case Returned
      then have ns: "\<not> stops a" and cf: "cleanupFailure a = []"
        and sr: "stallReport (getTodo t) a = []"
        by (simp_all add: stops_def cleanupFailure_def stallReport_def)
      have eq: "cleanupsLoop failures t = cleanupsLoop failures t2"
        using unfolded Returned by simp
      have "fst (cleanupsLoop failures t2) = (ending (cleanups t2), failures @ collected (cleanups t2)) \<and>
          trace (snd (cleanupsLoop failures t2)) =
            trace t2 @ concat (map invocation (drained (cleanups t2))) \<and>
          reports (snd (cleanupsLoop failures t2)) =
            reports t2 @ concat (map (stallReport (getTodo t2)) (drained (cleanups t2))) \<and>
          (ending (cleanups t2) = Returned \<longrightarrow> cleanups (snd (cleanupsLoop failures t2)) = [])"
      proof (rule "1.IH"(1) [OF pos a_def t1_def _ _ g2])
        show "(Returned, t2) = runCleanup a t1" using rc Returned by simp
        show "Returned = Returned" ..
      qed
      then show ?thesis
        by (simp add: eq stack drained_snoc ending_snoc collected_snoc ns cf sr tr2 cl2 rp2 td2)
    next
      case (Raised f)
      show ?thesis
      proof (cases "isException (kind f)")
        case True
        with Raised have ns: "\<not> stops a" and cf: "cleanupFailure a = [f]"
          and sr: "stallReport (getTodo t) a = []"
          by (simp_all add: stops_def cleanupFailure_def stallReport_def)
        have eq: "cleanupsLoop failures t = cleanupsLoop (failures @ [f]) t2"
          using unfolded Raised True by simp
        have "fst (cleanupsLoop (failures @ [f]) t2) =
            (ending (cleanups t2), (failures @ [f]) @ collected (cleanups t2)) \<and>
          trace (snd (cleanupsLoop (failures @ [f]) t2)) =
            trace t2 @ concat (map invocation (drained (cleanups t2))) \<and>
          reports (snd (cleanupsLoop (failures @ [f]) t2)) =
            reports t2 @ concat (map (stallReport (getTodo t2)) (drained (cleanups t2))) \<and>
          (ending (cleanups t2) = Returned \<longrightarrow>
             cleanups (snd (cleanupsLoop (failures @ [f]) t2)) = [])"
        proof (rule "1.IH"(2) [OF pos a_def t1_def _ _ True g2])
          show "(Raised f, t2) = runCleanup a t1" using rc Raised by simp
          show "Raised f = Raised f" ..
        qed
        then show ?thesis
          by (simp add: eq stack drained_snoc ending_snoc collected_snoc ns cf sr tr2 cl2 rp2 td2)
      next
        case False
        with Raised have st: "stops a" and sr: "stallReport (getTodo t) a = []"
          by (simp_all add: stops_def stallReport_def)
        have eq: "cleanupsLoop failures t = ((Raised f, failures), t2)"
          using unfolded Raised False by simp
        show ?thesis
          by (simp add: eq stack drained_snoc ending_snoc collected_snoc st sr tr2 rp2 Raised)
      qed
    next
      case Suspended
      then have st: "stops a"
        by (simp add: stops_def)
      have eq: "cleanupsLoop failures t = ((Suspended, failures), t2)"
        using unfolded Suspended by simp
      show ?thesis
        by (simp add: eq stack drained_snoc ending_snoc collected_snoc st tr2 rp2 Suspended)
    qed
  qed
qed

lemma passed_cleanupsLoop: "passed (snd (cleanupsLoop fs t)) = passed t"
proof (induction fs t rule: cleanupsLoop.induct)
  case (1 failures t)
  show ?case
  proof (cases "cleanups t = []")
    case True
    then show ?thesis by (simp add: cleanupsLoop.simps [of failures t])
  next
    case False
    define a where "a = last (cleanups t)"
    define t1 where "t1 = t\<lparr>cleanups := butlast (cleanups t)\<rparr>"
    define r where "r = fst (runCleanup a t1)"
    define t2 where "t2 = snd (runCleanup a t1)"
    have rc: "(r, t2) = runCleanup a t1" by (simp add: r_def t2_def)
    have pos: "0 < length (cleanups t)" using False by simp
    have p2: "passed t2 = passed t"
      by (simp add: t2_def passed_runCleanup t1_def)
    have unfolded: "cleanupsLoop failures t =
        (case r of
           Returned \<Rightarrow> cleanupsLoop failures t2
         | Raised f \<Rightarrow> if isException (kind f) then cleanupsLoop (failures @ [f]) t2
                        else ((Raised f, failures), t2)
         | Suspended \<Rightarrow> ((Suspended, failures), t2))"
      using False rc [symmetric]
      by (simp add: cleanupsLoop.simps [of failures t] a_def [symmetric] t1_def [symmetric])
    show ?thesis
    proof (cases r)
      case Returned
      have "passed (snd (cleanupsLoop failures t2)) = passed t2"
        by (rule "1.IH"(1) [OF pos a_def t1_def rc Returned])
      then show ?thesis using unfolded Returned p2 by simp
    next
      case (Raised f)
      show ?thesis
      proof (cases "isException (kind f)")
        case True
        have "passed (snd (cleanupsLoop (failures @ [f]) t2)) = passed t2"
          by (rule "1.IH"(2) [OF pos a_def t1_def rc Raised True])
        then show ?thesis using unfolded Raised True p2 by simp
      next
        case False
        then show ?thesis using unfolded Raised p2 by simp
      qed
    next
      case Suspended
      then show ?thesis using unfolded p2 by simp
    qed
  qed
qed

lemma fixture_cleanupsLoop: "fixture (snd (cleanupsLoop fs t)) = fixture t"
proof (induction fs t rule: cleanupsLoop.induct)
  case (1 failures t)
  show ?case
  proof (cases "cleanups t = []")
    case True
    then show ?thesis by (simp add: cleanupsLoop.simps [of failures t])
  next
    case False
    define a where "a = last (cleanups t)"
    define t1 where "t1 = t\<lparr>cleanups := butlast (cleanups t)\<rparr>"
    define r where "r = fst (runCleanup a t1)"
    define t2 where "t2 = snd (runCleanup a t1)"
    have rc: "(r, t2) = runCleanup a t1" by (simp add: r_def t2_def)
    have pos: "0 < length (cleanups t)" using False by simp
    have p2: "fixture t2 = fixture t"
      by (simp add: t2_def fixture_runCleanup t1_def)
    have unfolded: "cleanupsLoop failures t =
        (case r of
           Returned \<Rightarrow> cleanupsLoop failures t2
         | Raised f \<Rightarrow> if isException (kind f) then cleanupsLoop (failures @ [f]) t2
                        else ((Raised f, failures), t2)
         | Suspended \<Rightarrow> ((Suspended, failures), t2))"
      using False rc [symmetric]
      by (simp add: cleanupsLoop.simps [of failures t] a_def [symmetric] t1_def [symmetric])
    show ?thesis
    proof (cases r)
      case Returned
      have "fixture (snd (cleanupsLoop failures t2)) = fixture t2"
        by (rule "1.IH"(1) [OF pos a_def t1_def rc Returned])
      then show ?thesis using unfolded Returned p2 by simp
    next
      case (Raised f)
      show ?thesis
      proof (cases "isException (kind f)")
        case True
        have "fixture (snd (cleanupsLoop (failures @ [f]) t2)) = fixture t2"
          by (rule "1.IH"(2) [OF pos a_def t1_def rc Raised True])
        then show ?thesis using unfolded Raised True p2 by simp
      next
        case False
        then show ?thesis using unfolded Raised p2 by simp
      qed
    next
      case Suspended
      then show ?thesis using unfolded p2 by simp
    qed
  qed
qed

text \<open>
  \<^verbatim>\<open>_deferRunCleanups\<close>, in a test whose \<^verbatim>\<open>getTimeout\<close> returns: the loop, and
  after a loop that ends by itself one \<^verbatim>\<open>addError\<close> for each failure collected.
\<close>

lemma deferRunCleanups_drained:
  assumes "getTimeoutReturns t"
  shows "fst (deferRunCleanups t) = ending (cleanups t)"
    and "trace (snd (deferRunCleanups t)) =
           trace t @ CleaningUp # concat (map invocation (drained (cleanups t)))"
    and "reports (snd (deferRunCleanups t)) =
           reports t @ concat (map (stallReport (getTodo t)) (drained (cleanups t))) @
           (if ending (cleanups t) = Returned then map AddError (collected (cleanups t)) else [])"
    and "passed (snd (deferRunCleanups t)) =
           (passed t \<and> \<not> (ending (cleanups t) = Returned \<and> collected (cleanups t) \<noteq> []))"
    and "ending (cleanups t) = Returned \<Longrightarrow> cleanups (snd (deferRunCleanups t)) = []"
proof -
  define t0 where "t0 = step CleaningUp t"
  obtain r fs t1 where loop: "cleanupsLoop [] t0 = ((r, fs), t1)"
    by (metis surj_pair)
  have g0: "getTimeoutReturns t0"
    using assms by (simp add: t0_def)
  from cleanupsLoop_drained [OF g0, of "[]"] loop
  have r: "r = ending (cleanups t)" and fs: "fs = collected (cleanups t)"
    and tr: "trace t1 = trace t @ CleaningUp # concat (map invocation (drained (cleanups t)))"
    and rp: "reports t1 =
      reports t @ concat (map (stallReport (getTodo t)) (drained (cleanups t)))"
    and cl: "ending (cleanups t) = Returned \<longrightarrow> cleanups t1 = []"
    by (simp_all add: t0_def step_def)
  have ps: "passed t1 = passed t"
    using passed_cleanupsLoop [of "[]" t0] loop by (simp add: t0_def step_def)
  have "deferRunCleanups t =
      (case r of Returned \<Rightarrow> (Returned, reportErrors fs t1) | _ \<Rightarrow> (r, t1))"
    using loop by (cases r) (simp_all add: deferRunCleanups_def t0_def)
  then have eq: "deferRunCleanups t =
      (case ending (cleanups t) of
         Returned \<Rightarrow> (Returned, reportErrors (collected (cleanups t)) t1)
       | _ \<Rightarrow> (ending (cleanups t), t1))"
    unfolding r fs .
  show "fst (deferRunCleanups t) = ending (cleanups t)"
    using eq by (cases "ending (cleanups t)") simp_all
  show "trace (snd (deferRunCleanups t)) =
      trace t @ CleaningUp # concat (map invocation (drained (cleanups t)))"
    using eq tr by (cases "ending (cleanups t)") (simp_all add: reportErrors_eq)
  show "reports (snd (deferRunCleanups t)) =
      reports t @ concat (map (stallReport (getTodo t)) (drained (cleanups t))) @
      (if ending (cleanups t) = Returned then map AddError (collected (cleanups t)) else [])"
    using eq rp by (cases "ending (cleanups t)") (simp_all add: reportErrors_eq)
  show "passed (snd (deferRunCleanups t)) =
      (passed t \<and> \<not> (ending (cleanups t) = Returned \<and> collected (cleanups t) \<noteq> []))"
    using eq ps by (cases "ending (cleanups t)") (simp_all add: reportErrors_eq)
  show "cleanups (snd (deferRunCleanups t)) = []" if "ending (cleanups t) = Returned"
    using eq cl that by (simp add: reportErrors_eq)
qed

lemma fixture_reportErrors [simp]: "fixture (reportErrors fs t) = fixture t"
  by (simp add: reportErrors_eq fixture_def)

lemma fixture_deferRunCleanups: "fixture (snd (deferRunCleanups t)) = fixture t"
proof -
  obtain r fs t1 where loop: "cleanupsLoop [] (step CleaningUp t) = ((r, fs), t1)"
    by (metis surj_pair)
  have "fixture t1 = fixture t"
    using fixture_cleanupsLoop [of "[]" "step CleaningUp t"] loop by simp
  then show ?thesis
    using loop by (cases r) (simp_all add: deferRunCleanups_def)
qed

text \<open>
  A property of cleanups that passes from a cleanup to the cleanups it registers when
  the drain comes to it holds of the whole unwinding.
\<close>

lemma unwind_all:
  assumes "\<And>a. P a \<Longrightarrow> list_all P (cleanupPushed a)"
  shows "P a \<Longrightarrow> list_all P (unwind a)"
proof (induction a rule: unwind.induct)
  case (1 n r rs b)
  show ?case
  proof (cases "n = None \<or> b = GeneratorFunction")
    case True
    with "1.prems" show ?thesis by auto
  next
    case False
    with assms [OF "1.prems"] have "list_all P rs"
      using False
      by (auto simp: cleanupPushed_def pushed_def)
    with "1.IH" [OF False] have "\<forall>x \<in> set rs. list_all P (unwind x)"
      by (simp add: list_all_iff)
    then have "list_all P (concat (map unwind (rev rs)))"
      by (simp add: list_all_iff)
    with "1.prems" False show ?thesis by simp
  qed
qed

lemma drainOrder_all:
  assumes "\<And>a. P a \<Longrightarrow> list_all P (cleanupPushed a)" and "list_all P stack"
  shows "list_all P (drainOrder stack)"
proof -
  have "list_all P (unwind a)" if "P a" for a
    using unwind_all [of P, OF assms(1) that] .
  with assms(2) show ?thesis
    by (auto simp: drainOrder_def list_all_iff)
qed

lemma completes_cleanupPushed: "completes a \<Longrightarrow> list_all completes (cleanupPushed a)"
  by (cases a) (auto simp: cleanupPushed_def pushed_def)

lemma named_cleanupPushed: "named a \<Longrightarrow> list_all named (cleanupPushed a)"
  by (cases a) (auto simp: cleanupPushed_def pushed_def)


lemma completes_not_stops: "completes a \<Longrightarrow> \<not> stops a"
  by (cases a; cases "name a"; cases "behaviour a") (auto simp: stops_def fate_def)


lemma named_invocation: "named a \<Longrightarrow> invocation a = [Invoked (cleanupDescription a)]"
  by (cases a) (auto simp: invocation_def cleanupDescription_def)

lemma takeUntil_none: "list_all (\<lambda>a. \<not> P a) xs \<Longrightarrow> takeUntil P xs = xs"
  by (induction xs) simp_all


text \<open>A stack of cleanups that complete is drained to its end.\<close>

lemma drained_completes:
  assumes "list_all completes stack"
  shows "drained stack = drainOrder stack"
    and "ending stack = Returned"
    and "collected stack = concat (map cleanupFailure (drainOrder stack))"
    and "concat (map (stallReport todo) (drained stack)) = []"
proof -
  have all: "list_all completes (drainOrder stack)"
    using drainOrder_all [of completes, OF completes_cleanupPushed assms] .
  then have ns: "list_all (\<lambda>a. \<not> stops a) (drainOrder stack)"
    by (simp add: list_all_iff completes_not_stops)
  then show d: "drained stack = drainOrder stack"
    by (simp add: drained_def takeUntil_none)
  show "ending stack = Returned"
  proof (cases "drainOrder stack = []")
    case True
    then show ?thesis by (simp add: ending_def d)
  next
    case False
    then have "last (drainOrder stack) \<in> set (drainOrder stack)" by simp
    with ns have "\<not> stops (last (drainOrder stack))"
      by (simp add: list_all_iff)
    then show ?thesis by (simp add: ending_def d)
  qed
  have "filter (\<lambda>a. \<not> stops a) (drainOrder stack) = drainOrder stack"
    using ns by (simp add: list_all_iff)
  then show "collected stack = concat (map cleanupFailure (drainOrder stack))"
    by (simp add: collected_def d)
  have "\<forall>a \<in> set (drainOrder stack). stallReport todo a = []"
    using ns by (auto simp: list_all_iff stallReport_def stops_def)
  then show "concat (map (stallReport todo) (drained stack)) = []"
    by (simp add: d)
qed


lemma drainOrder_flat: "list_all (\<lambda>a. pushed a = []) stack \<Longrightarrow> drainOrder stack = rev stack"
proof (induction stack rule: rev_induct)
  case Nil
  then show ?case by simp
next
  case (snoc a stack)
  then show ?case by (simp add: drainOrder_snoc cleanupPushed_def)
qed

lemma named_invocations:
  assumes "list_all named stack"
  shows "concat (map invocation (drainOrder stack)) =
         map (\<lambda>a. Invoked (cleanupDescription a)) (drainOrder stack)"
proof -
  have all: "list_all named (drainOrder stack)"
    using drainOrder_all [of named, OF named_cleanupPushed assms] .
  have "list_all named xs \<Longrightarrow>
      concat (map invocation xs) = map (\<lambda>a. Invoked (cleanupDescription a)) xs" for xs
    by (induction xs) (simp_all add: named_invocation)
  from this [OF all] show ?thesis .
qed

lemmas getTimeout_simps = getTimeoutReturns_def timeout_def self_getTimeout_def getTimeout_def

lemmas drain_simps = deferRunCleanups_def cleanupsLoop.simps runCleanup_def phase_simps
  cleanupLambda_def pushed_def step_def reportErrors_eq getTimeout_simps Let_def

lemmas example_simps = exampleTest_def overflowTest_def namedFunction_def partialObject_def

text \<open>
  C1, as stated, fails on \<open>interruptedCleanups\<close>. The \<^verbatim>\<open>KeyboardInterrupt\<close> of
  \<^verbatim>\<open>b\<close> is no \<^verbatim>\<open>Exception\<close>, so \<^verbatim>\<open>except Exception\<close> does not catch it and it
  leaves \<^verbatim>\<open>_deferRunCleanups\<close>: \<^verbatim>\<open>a\<close> stays on the stack and never runs, and the
  failure of \<^verbatim>\<open>c\<close>, collected before, is never reported. It fails on
  \<open>stalledCleanups\<close>: the timeout of \<^verbatim>\<open>s\<close> finds its Deferred already called, the
  generator is never resumed, and \<^verbatim>\<open>a\<close> never runs. It fails on \<open>unnamedCleanups\<close>:
  the description of \<^verbatim>\<open>b\<close> is made inside the \<^verbatim>\<open>try\<close>, and \<^verbatim>\<open>b\<close> has no
  \<^verbatim>\<open>__name__\<close>, so it is popped and never called, and the \<^verbatim>\<open>AttributeError\<close> is
  reported. It fails on \<open>overflowCleanups\<close>: the \<^verbatim>\<open>OverflowError\<close> of
  \<^verbatim>\<open>getTimeout\<close> leaves \<^verbatim>\<open>_run\<close> before \<^verbatim>\<open>a\<close> is called.
\<close>

theorem deferRunCleanups_interrupt_counterexample:
  "fst (deferRunCleanups interruptedCleanups) = Raised (Failure KeyboardInterrupt []) \<and>
   trace (snd (deferRunCleanups interruptedCleanups)) =
     [CleaningUp, Invoked ''cleanup function c'', Invoked ''cleanup function b''] \<and>
   cleanups (snd (deferRunCleanups interruptedCleanups)) = [namedFunction ''a'' [] Succeeds] \<and>
   reports (snd (deferRunCleanups interruptedCleanups)) = [] \<and>
   fst (deferRunCleanups stalledCleanups) = Suspended \<and>
   trace (snd (deferRunCleanups stalledCleanups)) = [CleaningUp, Invoked ''cleanup function s''] \<and>
   cleanups (snd (deferRunCleanups stalledCleanups)) = [namedFunction ''a'' [] Succeeds] \<and>
   trace (snd (deferRunCleanups unnamedCleanups)) = [CleaningUp, Invoked ''cleanup function a''] \<and>
   cleanups (snd (deferRunCleanups unnamedCleanups)) = [] \<and>
   reports (snd (deferRunCleanups unnamedCleanups)) =
     [AddError (Failure AttributeError ''object has no attribute __name__'')] \<and>
   trace (snd (deferRunCleanups overflowCleanups)) = [CleaningUp] \<and>
   cleanups (snd (deferRunCleanups overflowCleanups)) = [] \<and>
   reports (snd (deferRunCleanups overflowCleanups)) = [AddError (Failure OverflowError [])]"
  by (simp add: drain_simps interruptedCleanups_def stalledCleanups_def unnamedCleanups_def
      overflowCleanups_def example_simps)

text \<open>
  C1, amended. In a test whose \<^verbatim>\<open>getTimeout\<close> returns, on a stack whose actions
  have a \<^verbatim>\<open>__name__\<close> and complete, \<^verbatim>\<open>_deferRunCleanups\<close> calls every action
  exactly once, in the order of the unwinding (for a stack whose actions register no
  further cleanup, the reverse of the stack); a failure does not keep the later actions
  from running; the \<^verbatim>\<open>while\<close> loop reports nothing and collects the failures in
  the order they occur, and after it every one of them is reported with
  \<^verbatim>\<open>addError\<close>, in that order. The stack is empty in the end.
\<close>

theorem deferRunCleanups_unwinds:
  assumes "getTimeoutReturns t"
    and "list_all named (cleanups t)"
    and "list_all completes (cleanups t)"
  shows "fst (cleanupsLoop [] (step CleaningUp t)) =
           (Returned, concat (map cleanupFailure (drainOrder (cleanups t)))) \<and>
         reports (snd (cleanupsLoop [] (step CleaningUp t))) = reports t \<and>
         fst (deferRunCleanups t) = Returned \<and>
         trace (snd (deferRunCleanups t)) =
           trace t @ CleaningUp # map (\<lambda>a. Invoked (cleanupDescription a)) (drainOrder (cleanups t)) \<and>
         cleanups (snd (deferRunCleanups t)) = [] \<and>
         reports (snd (deferRunCleanups t)) =
           reports t @ map AddError (concat (map cleanupFailure (drainOrder (cleanups t)))) \<and>
         (list_all (\<lambda>a. pushed a = []) (cleanups t) \<longrightarrow> drainOrder (cleanups t) = rev (cleanups t))"
proof -
  note c = drained_completes [OF assms(3)]
  have g0: "getTimeoutReturns (step CleaningUp t)"
    using assms(1) by simp
  have "fst (cleanupsLoop [] (step CleaningUp t)) =
      (Returned, concat (map cleanupFailure (drainOrder (cleanups t))))"
    and "reports (snd (cleanupsLoop [] (step CleaningUp t))) = reports t"
    using cleanupsLoop_drained [OF g0, of "[]"] c(2,3) c(4) [of "getTodo t"]
    by (simp_all add: step_def)
  moreover have "fst (deferRunCleanups t) = Returned"
    using deferRunCleanups_drained(1) [OF assms(1)] c(2) by simp
  moreover have "trace (snd (deferRunCleanups t)) =
      trace t @ CleaningUp # map (\<lambda>a. Invoked (cleanupDescription a)) (drainOrder (cleanups t))"
    using deferRunCleanups_drained(2) [OF assms(1)] c(1) named_invocations [OF assms(2)]
    by simp
  moreover have "cleanups (snd (deferRunCleanups t)) = []"
    using deferRunCleanups_drained(5) [OF assms(1)] c(2) by simp
  moreover have "reports (snd (deferRunCleanups t)) =
      reports t @ map AddError (concat (map cleanupFailure (drainOrder (cleanups t))))"
    using deferRunCleanups_drained(3) [OF assms(1)] c(2,3) c(4) [of "getTodo t"] by simp
  ultimately show ?thesis
    by (simp add: drainOrder_flat)
qed

theorem deferRunCleanups_unwinds_witness:
  "getTimeoutReturns exampleTest \<and>
   list_all named
     [namedFunction ''a'' [] Succeeds,
      namedFunction ''b'' [] (Fails (Failure RuntimeError ''boom'')),
      namedFunction ''c'' [] NeverFires,
      namedFunction ''d'' [] (Fails (Failure ValueError ''bad''))] \<and>
   list_all completes
     [namedFunction ''a'' [] Succeeds,
      namedFunction ''b'' [] (Fails (Failure RuntimeError ''boom'')),
      namedFunction ''c'' [] NeverFires,
      namedFunction ''d'' [] (Fails (Failure ValueError ''bad''))] \<and>
   trace (snd (deferRunCleanups (exampleTest\<lparr>cleanups :=
        [namedFunction ''a'' [] Succeeds,
         namedFunction ''b'' [] (Fails (Failure RuntimeError ''boom'')),
         namedFunction ''c'' [] NeverFires,
         namedFunction ''d'' [] (Fails (Failure ValueError ''bad''))]\<rparr>))) =
     [CleaningUp, Invoked ''cleanup function d'', Invoked ''cleanup function c'',
      Invoked ''cleanup function b'', Invoked ''cleanup function a''] \<and>
   reports (snd (deferRunCleanups (exampleTest\<lparr>cleanups :=
        [namedFunction ''a'' [] Succeeds,
         namedFunction ''b'' [] (Fails (Failure RuntimeError ''boom'')),
         namedFunction ''c'' [] NeverFires,
         namedFunction ''d'' [] (Fails (Failure ValueError ''bad''))]\<rparr>))) =
     [AddError (Failure ValueError ''bad''),
      AddError (Failure TimeoutError ''(cleanup function c) still running''),
      AddError (Failure RuntimeError ''boom'')]"
  using deferRunCleanups_unwinds [of "exampleTest\<lparr>cleanups :=
        [namedFunction ''a'' [] Succeeds,
         namedFunction ''b'' [] (Fails (Failure RuntimeError ''boom'')),
         namedFunction ''c'' [] NeverFires,
         namedFunction ''d'' [] (Fails (Failure ValueError ''bad''))]\<rparr>"]
  by (simp add: example_simps getTimeout_simps drainOrder_def cleanupFailure_def fate_def
      cleanupDescription_def)

section \<open>The finalizers of the sequencer\<close>

lemma drainReport_not_AddSuccess: "list_all drainReport rs \<Longrightarrow> AddSuccess \<notin> set rs"
  by (induction rs) auto

lemma trace_phase:
  "trace (snd (phase a d t)) =
     trace t @ (if getTimeoutReturns t \<and> behaviour a \<noteq> GeneratorFunction then [Invoked d] else [])"
proof (cases "getTimeoutReturns t")
  case True
  then show ?thesis
    by (cases "behaviour a") (simp_all add: phase_simps Let_def)
next
  case False
  then show ?thesis by (simp add: phase_not_returns)
qed

lemma reports_phase:
  "\<exists>rs. reports (snd (phase a d t)) = reports t @ rs \<and> list_all drainReport rs \<and>
        (behaviour a \<noteq> Stalls \<longrightarrow> rs = [])"
proof (cases "getTimeoutReturns t")
  case True
  then show ?thesis
    by (cases "behaviour a") (auto simp: phase_simps Let_def split: option.splits)
next
  case False
  then show ?thesis by (simp add: phase_not_returns)
qed

lemma suspended_phase:
  "fst (phase a d t) = Suspended \<longleftrightarrow> getTimeoutReturns t \<and> behaviour a = Stalls"
proof (cases "getTimeoutReturns t")
  case True
  then show ?thesis
    by (cases "behaviour a") (simp_all add: phase_simps Let_def)
next
  case False
  then show ?thesis by (simp add: phase_not_returns)
qed

lemma fixture_updates [simp]:
  "fixture (t\<lparr>passed := p\<rparr>) = fixture t"
  "fixture (t\<lparr>timedOut := b\<rparr>) = fixture t"
  "fixture (addSuccess t) = fixture t"
  "fixture (addFailure f t) = fixture t"
  "fixture (addError f t) = fixture t"
  "fixture (addSkip r t) = fixture t"
  "fixture (addExpectedFailure f td t) = fixture t"
  "fixture (addUnexpectedSuccess td t) = fixture t"
  "fixture (stop t) = fixture t"
  by (simp_all add: fixture_def addSuccess_def addFailure_def addError_def addSkip_def
      addExpectedFailure_def addUnexpectedSuccess_def stop_def)

lemma fixture_ebDeferTestMethod [simp]: "fixture (ebDeferTestMethod f t) = fixture t"
  by (simp add: ebDeferTestMethod_def Let_def)

lemma trace_ebDeferTestMethod [simp]: "trace (ebDeferTestMethod f t) = trace t"
  by (simp add: ebDeferTestMethod_def Let_def addExpectedFailure_def addFailure_def addError_def
      stop_def addSkip_def)

lemma cleanups_ebDeferTestMethod [simp]: "cleanups (ebDeferTestMethod f t) = cleanups t"
  by (simp add: ebDeferTestMethod_def Let_def addExpectedFailure_def addFailure_def addError_def
      stop_def addSkip_def)

lemma testMethod_fixture:
  "fixture t' = fixture t \<Longrightarrow>
   setUp t' = setUp t \<and> testMethod t' = testMethod t \<and> testMethodName t' = testMethodName t \<and>
   tearDown t' = tearDown t \<and> getTodo t' = getTodo t \<and>
   postCaseCleanup t' = postCaseCleanup t \<and> postClassCleanup t' = postClassCleanup t \<and>
   loggedErrors t' = loggedErrors t"
  by (simp add: fixture_def)

text \<open>The innermost \<^verbatim>\<open>try\<close>: the test method is called, unless it is a generator function.\<close>

lemma runTestMethod_general:
  shows "trace (snd (runTestMethod t)) =
           trace t @ RunningTest #
           (if getTimeoutReturns t \<and> \<not> isgeneratorfunction (testMethod t)
            then [Invoked (testMethodName t)] else [])"
    and "cleanups (snd (runTestMethod t)) =
           cleanups t @ (if getTimeoutReturns t then pushed (testMethod t) else [])"
    and "fst (runTestMethod t) = Suspended \<longleftrightarrow>
           getTimeoutReturns t \<and> behaviour (testMethod t) = Stalls"
    and "fixture (snd (runTestMethod t)) = fixture t"
proof -
  obtain r t1 where ph: "phase (testMethod t) (testMethodName t) (step RunningTest t) = (r, t1)"
    by (metis surj_pair)
  have tr: "trace t1 = trace t @ RunningTest #
      (if getTimeoutReturns t \<and> \<not> isgeneratorfunction (testMethod t)
       then [Invoked (testMethodName t)] else [])"
    using trace_phase [of "testMethod t" "testMethodName t" "step RunningTest t"] ph
    by (simp add: step_def isgeneratorfunction_def getTimeout_simps)
  have cl: "cleanups t1 = cleanups t @ (if getTimeoutReturns t then pushed (testMethod t) else [])"
    using cleanups_phase [of "testMethod t" "testMethodName t" "step RunningTest t"] ph
    by (simp add: step_def getTimeout_simps)
  have sus: "r = Suspended \<longleftrightarrow> getTimeoutReturns t \<and> behaviour (testMethod t) = Stalls"
    using suspended_phase [of "testMethod t" "testMethodName t" "step RunningTest t"] ph
    by simp
  have fx: "fixture t1 = fixture t"
    using fixture_phase [of "testMethod t" "testMethodName t" "step RunningTest t"] ph
    by simp
  show "trace (snd (runTestMethod t)) =
      trace t @ RunningTest #
      (if getTimeoutReturns t \<and> \<not> isgeneratorfunction (testMethod t)
       then [Invoked (testMethodName t)] else [])"
    using ph tr by (cases r) (simp_all add: runTestMethod_def addUnexpectedSuccess_def)
  show "cleanups (snd (runTestMethod t)) =
      cleanups t @ (if getTimeoutReturns t then pushed (testMethod t) else [])"
    using ph cl by (cases r) (simp_all add: runTestMethod_def addUnexpectedSuccess_def)
  show "fst (runTestMethod t) = Suspended \<longleftrightarrow>
      getTimeoutReturns t \<and> behaviour (testMethod t) = Stalls"
    using ph sus by (cases r) (simp_all add: runTestMethod_def)
  show "fixture (snd (runTestMethod t)) = fixture t"
    using ph fx by (cases r) (simp_all add: runTestMethod_def)
qed

text \<open>
  \<^verbatim>\<open>_deferTearDown\<close>: \<^verbatim>\<open>tearDown\<close> is called, unless it is a generator function;
  no success is reported, and \<^verbatim>\<open>_passed\<close> is not set.
\<close>

lemma deferTearDown_general:
  shows "trace (snd (deferTearDown t)) =
           trace t @ TearingDown #
           (if getTimeoutReturns t \<and> \<not> isgeneratorfunction (tearDown t)
            then [Invoked ''tearDown''] else [])"
    and "\<exists>rs. reports (snd (deferTearDown t)) = reports t @ rs \<and> AddSuccess \<notin> set rs"
    and "passed (snd (deferTearDown t)) \<longrightarrow> passed t"
    and "fst (deferTearDown t) = Suspended \<longleftrightarrow>
           getTimeoutReturns t \<and> behaviour (tearDown t) = Stalls"
    and "fixture (snd (deferTearDown t)) = fixture t"
proof -
  obtain r t1 where ph: "phase (tearDown t) ''tearDown'' (step TearingDown t) = (r, t1)"
    by (metis surj_pair)
  have tr: "trace t1 = trace t @ TearingDown #
      (if getTimeoutReturns t \<and> \<not> isgeneratorfunction (tearDown t)
       then [Invoked ''tearDown''] else [])"
    using trace_phase [of "tearDown t" "''tearDown''" "step TearingDown t"] ph
    by (simp add: step_def isgeneratorfunction_def getTimeout_simps)
  from reports_phase [of "tearDown t" "''tearDown''" "step TearingDown t"] ph
  obtain rs where rp: "reports t1 = reports t @ rs" "AddSuccess \<notin> set rs"
    by (auto simp: step_def drainReport_not_AddSuccess)
  have ps: "passed t1 = passed t"
    using passed_phase [of "tearDown t" "''tearDown''" "step TearingDown t"] ph
    by (simp add: step_def)
  have sus: "r = Suspended \<longleftrightarrow> getTimeoutReturns t \<and> behaviour (tearDown t) = Stalls"
    using suspended_phase [of "tearDown t" "''tearDown''" "step TearingDown t"] ph
    by simp
  have fx: "fixture t1 = fixture t"
    using fixture_phase [of "tearDown t" "''tearDown''" "step TearingDown t"] ph
    by simp
  show "trace (snd (deferTearDown t)) =
      trace t @ TearingDown #
      (if getTimeoutReturns t \<and> \<not> isgeneratorfunction (tearDown t)
       then [Invoked ''tearDown''] else [])"
    using ph tr by (cases r) (simp_all add: deferTearDown_def addError_def stop_def)
  show "\<exists>rs. reports (snd (deferTearDown t)) = reports t @ rs \<and> AddSuccess \<notin> set rs"
    using ph rp by (cases r) (auto simp: deferTearDown_def addError_def stop_def)
  show "passed (snd (deferTearDown t)) \<longrightarrow> passed t"
    using ph ps by (cases r) (auto simp: deferTearDown_def addError_def stop_def)
  show "fst (deferTearDown t) = Suspended \<longleftrightarrow>
      getTimeoutReturns t \<and> behaviour (tearDown t) = Stalls"
    using ph sus by (cases r) (auto simp: deferTearDown_def)
  show "fixture (snd (deferTearDown t)) = fixture t"
    using ph fx by (cases r) (simp_all add: deferTearDown_def)
qed

text \<open>
  After a \<^verbatim>\<open>setUp\<close> that returns, when neither the test method nor the drain is
  abandoned, the coroutine ends where \<^verbatim>\<open>_deferTearDown\<close> ends.
\<close>

lemma deferSetUp_finalizers:
  assumes "getTimeoutReturns t" and "behaviour (setUp t) = Succeeds"
    and "fst (runTestMethod (snd (phase (setUp t) ''setUp'' (step SettingUp t)))) \<noteq> Suspended"
    and "fst (deferRunCleanups (snd (runTestMethod
          (snd (phase (setUp t) ''setUp'' (step SettingUp t)))))) \<noteq> Suspended"
  shows "snd (deferSetUp t) =
     snd (deferTearDown (snd (deferRunCleanups (snd (runTestMethod
        (snd (phase (setUp t) ''setUp'' (step SettingUp t))))))))"
    and "fst (deferSetUp t) = Suspended \<longleftrightarrow>
     fst (deferTearDown (snd (deferRunCleanups (snd (runTestMethod
        (snd (phase (setUp t) ''setUp'' (step SettingUp t)))))))) = Suspended"
proof -
  define t1 where "t1 = snd (phase (setUp t) ''setUp'' (step SettingUp t))"
  have ph: "phase (setUp t) ''setUp'' (step SettingUp t) = (Returned, t1)"
    using assms(1,2) by (simp add: t1_def phase_Succeeds)
  obtain r t2 where rt: "runTestMethod t1 = (r, t2)" by (metis surj_pair)
  obtain c t3 where dr: "deferRunCleanups t2 = (c, t3)" by (metis surj_pair)
  obtain x t4 where td: "deferTearDown t3 = (x, t4)" by (metis surj_pair)
  from assms(3,4) rt dr have "r \<noteq> Suspended" "c \<noteq> Suspended"
    by (simp_all add: t1_def [symmetric])
  then have "snd (deferSetUp t) = t4" and "fst (deferSetUp t) = Suspended \<longleftrightarrow> x = Suspended"
    using ph rt dr td by (cases r; cases c; cases x; simp add: deferSetUp_def)+
  then show "snd (deferSetUp t) =
     snd (deferTearDown (snd (deferRunCleanups (snd (runTestMethod
        (snd (phase (setUp t) ''setUp'' (step SettingUp t))))))))"
    and "fst (deferSetUp t) = Suspended \<longleftrightarrow>
     fst (deferTearDown (snd (deferRunCleanups (snd (runTestMethod
        (snd (phase (setUp t) ''setUp'' (step SettingUp t)))))))) = Suspended"
    using rt dr td by (simp_all add: t1_def [symmetric])
qed

text \<open>The coroutine changes nothing of the fixture.\<close>

lemma fixture_deferSetUp: "fixture (snd (deferSetUp t)) = fixture t"
proof -
  obtain s t1 where ph: "phase (setUp t) ''setUp'' (step SettingUp t) = (s, t1)"
    by (metis surj_pair)
  have f1: "fixture t1 = fixture t"
    using fixture_phase [of "setUp t" "''setUp''" "step SettingUp t"] ph by simp
  show ?thesis
  proof (cases s)
    case Returned
    obtain r t2 where rt: "runTestMethod t1 = (r, t2)" by (metis surj_pair)
    obtain c t3 where dr: "deferRunCleanups t2 = (c, t3)" by (metis surj_pair)
    obtain x t4 where td: "deferTearDown t3 = (x, t4)" by (metis surj_pair)
    have f2: "fixture t2 = fixture t"
      using runTestMethod_general(4) [of t1] rt f1 by simp
    have f3: "fixture t3 = fixture t"
      using fixture_deferRunCleanups [of t2] dr f2 by simp
    have f4: "fixture t4 = fixture t"
      using deferTearDown_general(5) [of t3] td f3 by simp
    show ?thesis
      using ph Returned rt dr td f2 f3 f4
      by (cases r; cases c; cases x; simp add: deferSetUp_def)
  next
    case (Raised e)
    then show ?thesis
      using ph f1 by (simp add: deferSetUp_def fixture_deferRunCleanups)
  next
    case Suspended
    then show ?thesis
      using ph f1 by (simp add: deferSetUp_def)
  qed
qed

text \<open>
  \<^verbatim>\<open>_cleanUp\<close> and \<^verbatim>\<open>_classCleanUp\<close> report what \<open>cleanUpReports\<close> says, and call
  no user function.
\<close>

lemma cleanUp_reports:
  "reports (classCleanUp (cleanUp t)) = reports t @ cleanUpReports (passed t) t"
  "trace (classCleanUp (cleanUp t)) = trace t"
proof -
  show "reports (classCleanUp (cleanUp t)) = reports t @ cleanUpReports (passed t) t"
  proof (cases "postCaseCleanup t")
    case (Inl e)
    then show ?thesis
      by (cases "postClassCleanup t")
         (simp_all add: cleanUp_def classCleanUp_def cleanUpReports_def Let_def reportErrors_eq
            addError_def addSuccess_def)
  next
    case (Inr clean)
    then show ?thesis
      by (cases "postClassCleanup t"; cases clean)
         (simp_all add: cleanUp_def classCleanUp_def cleanUpReports_def Let_def reportErrors_eq
            addError_def addSuccess_def)
  qed
  show "trace (classCleanUp (cleanUp t)) = trace t"
    by (cases "postCaseCleanup t"; cases "postClassCleanup t")
       (simp_all add: cleanUp_def classCleanUp_def Let_def reportErrors_eq addError_def
          addSuccess_def)
qed

text \<open>
  A run of the test that ends: its trace is that of the coroutine, and its reports are
  those of the coroutine and then those of \<^verbatim>\<open>_cleanUp\<close> and
  \<^verbatim>\<open>_classCleanUp\<close>. It ends when the coroutine is not abandoned.
\<close>

lemma runFixturesAndTest_Some:
  assumes "runFixturesAndTest evs t = Some (e, t')"
  shows "trace t' = trace (snd (deferSetUp (t\<lparr>timedOut := False\<rparr>)))"
    and "reports t' =
           reports (snd (deferSetUp (t\<lparr>timedOut := False\<rparr>))) @
           cleanUpReports (passed (snd (deferSetUp (t\<lparr>timedOut := False\<rparr>)))) t"
proof -
  obtain r t4 where ds: "deferSetUp (t\<lparr>timedOut := False\<rparr>) = (r, t4)"
    by (metis surj_pair)
  with assms obtain t5 where w: "wait evs (fromCoroutine r) t4 = Some (e, t5)"
    and t': "t' = classCleanUp (cleanUp t5)"
    by (auto simp: runFixturesAndTest_def split: option.splits)
  from wait_frame [OF w] obtain c n where t5: "t5 = t4\<lparr>reactorCrashed := c, nestedWaits := n\<rparr>"
    by blast
  have "fixture t4 = fixture t"
    using fixture_deferSetUp [of "t\<lparr>timedOut := False\<rparr>"] ds by simp
  then have "cleanUpReports p t5 = cleanUpReports p t" for p
    using testMethod_fixture [of t4 t] by (simp add: cleanUpReports_def t5)
  then show "trace t' = trace (snd (deferSetUp (t\<lparr>timedOut := False\<rparr>)))"
    and "reports t' =
           reports (snd (deferSetUp (t\<lparr>timedOut := False\<rparr>))) @
           cleanUpReports (passed (snd (deferSetUp (t\<lparr>timedOut := False\<rparr>)))) t"
    using cleanUp_reports [of t5] by (simp_all add: t' ds t5)
qed

lemma runFixturesAndTest_ends:
  assumes "fst (deferSetUp (t\<lparr>timedOut := False\<rparr>)) \<noteq> Suspended"
  shows "\<exists>e t'. runFixturesAndTest evs t = Some (e, t')"
proof -
  obtain r t4 where ds: "deferSetUp (t\<lparr>timedOut := False\<rparr>) = (r, t4)"
    by (metis surj_pair)
  with assms have "r \<noteq> Suspended" by simp
  then obtain x where "status (fromCoroutine r) = Fired x"
    by (cases r) (simp_all add: fromCoroutine_def fail_def)
  from wait_fired [OF this, of evs t4] ds show ?thesis
    by (auto simp: runFixturesAndTest_def)
qed

lemma count_list_invocations [simp]:
  "count_list (concat (map invocation xs)) CleaningUp = 0"
  "count_list (concat (map invocation xs)) TearingDown = 0"
  by (induction xs) (simp_all add: invocation_def split: option.splits)


lemmas run_simps = runFixturesAndTest_def deferSetUp_def runTestMethod_def deferTearDown_def
  drain_simps ebDeferTestMethod_def getSkipReason_def fromCoroutine_def fail_def wait.simps
  popRunning_def cleanUp_def classCleanUp_def addError_def addSuccess_def addSkip_def
  addFailure_def stop_def




section \<open>A skip signal raised by setUp\<close>

lemma filter_skipOrFailure_drainReports [simp]:
  "filter skipOrFailure (drainReports todo stack) = []"
proof -
  have "filter skipOrFailure (concat (map (stallReport todo) xs)) = []" for xs
    by (induction xs) (simp_all add: stallReport_def Let_def split: option.splits)
  moreover have "filter skipOrFailure (map AddError fs) = []" for fs
    by (induction fs) simp_all
  ultimately show ?thesis
    by (simp add: drainReports_def)
qed

lemma filter_skipOrFailure_cleanUpReports [simp]:
  "filter skipOrFailure (cleanUpReports p t) = []"
proof -
  have "filter skipOrFailure (map AddError fs) = []" for fs
    by (induction fs) simp_all
  then show ?thesis
    by (simp add: cleanUpReports_def split: sum.splits option.splits)
qed






section \<open>A cleanup that fails after the test method has passed\<close>

lemma runTestMethod_Succeeds:
  assumes "getTimeoutReturns t" and "behaviour (testMethod t) = Succeeds"
  shows "fst (runTestMethod t) = Returned"
    and "\<exists>rs. reports (snd (runTestMethod t)) = reports t @ rs \<and> AddSuccess \<notin> set rs"
proof -
  have "getTimeoutReturns (step RunningTest t)"
    using assms(1) by simp
  with assms(2) show "fst (runTestMethod t) = Returned"
    and "\<exists>rs. reports (snd (runTestMethod t)) = reports t @ rs \<and> AddSuccess \<notin> set rs"
    by (auto simp: runTestMethod_def phase_Succeeds addUnexpectedSuccess_def step_def)
qed

text \<open>\<^verbatim>\<open>_cleanUp\<close> reports a success only for a test whose \<^verbatim>\<open>_passed\<close> is set.\<close>

lemma cleanUpReports_not_passed: "AddSuccess \<notin> set (cleanUpReports False t)"
  by (auto simp: cleanUpReports_def split: sum.splits option.splits)

text \<open>
  C6, as stated, fails on \<open>interruptedTest\<close>. The \<^verbatim>\<open>KeyboardInterrupt\<close> of the
  cleanup leaves \<^verbatim>\<open>_deferRunCleanups\<close> before its \<^verbatim>\<open>for\<close> loop, so nothing is
  reported for it and \<^verbatim>\<open>_passed\<close>, set by the test method, stays set; the coroutine
  ends with the exception, \<^verbatim>\<open>_wait\<close> returns, and \<^verbatim>\<open>_cleanUp\<close> reports the
  success. The result sink receives \<^verbatim>\<open>addSuccess\<close> and nothing else. On
  \<open>stalledCleanupTest\<close>, \<^verbatim>\<open>onTimeout\<close> reports the timeout of the cleanup and
  leaves \<^verbatim>\<open>_passed\<close> set: the sink receives \<^verbatim>\<open>addError\<close> and then
  \<^verbatim>\<open>addSuccess\<close>.
\<close>

theorem cleanup_failure_counterexample:
  "behaviour (setUp interruptedTest) = Succeeds \<and>
   behaviour (testMethod interruptedTest) = Succeeds \<and>
   fst (deferSetUp (interruptedTest\<lparr>timedOut := False\<rparr>)) = Raised (Failure KeyboardInterrupt []) \<and>
   map_option (reports \<circ> snd) (runFixturesAndTest [] interruptedTest) = Some [AddSuccess] \<and>
   behaviour (testMethod stalledCleanupTest) = Succeeds \<and>
   map_option (reports \<circ> snd) (runFixturesAndTest [Crashes] stalledCleanupTest) =
     Some [AddError (Failure TimeoutError ''(cleanup function closeConnection) still running''),
           AddSuccess]"
  by (simp add: interruptedTest_def stalledCleanupTest_def example_simps run_simps)

text \<open>
  C6, amended. When \<^verbatim>\<open>getTimeout\<close>, \<^verbatim>\<open>setUp\<close> and the test method return, the
  drained cleanups complete, and at least one of them fails, a run of the test that ends
  has reported every failure of a cleanup with \<^verbatim>\<open>addError\<close> and has not reported a
  success, whatever \<^verbatim>\<open>tearDown\<close>, the janitor and the log observer do. The run ends
  unless the timeout finds the Deferred of \<^verbatim>\<open>tearDown\<close> already called and nothing
  crashes the reactor.
\<close>

theorem cleanup_failure_demotes:
  assumes "getTimeoutReturns t"
    and "behaviour (setUp t) = Succeeds"
    and "behaviour (testMethod t) = Succeeds"
    and "list_all completes (cleanups t @ registers (setUp t) @ registers (testMethod t))"
    and "concat (map cleanupFailure
           (drainOrder (cleanups t @ registers (setUp t) @ registers (testMethod t)))) \<noteq> []"
  shows "(\<forall>e t'. runFixturesAndTest evs t = Some (e, t') \<longrightarrow>
            (\<exists>rs. reports t' = reports t @ rs \<and> AddSuccess \<notin> set rs \<and>
               (\<forall>f \<in> set (concat (map cleanupFailure
                     (drainOrder (cleanups t @ registers (setUp t) @ registers (testMethod t))))).
                  AddError f \<in> set rs))) \<and>
         (behaviour (tearDown t) \<noteq> Stalls \<longrightarrow> (\<exists>e t'. runFixturesAndTest evs t = Some (e, t')))"
proof -
  define stack where "stack = cleanups t @ registers (setUp t) @ registers (testMethod t)"
  define failures where "failures = concat (map cleanupFailure (drainOrder stack))"
  define t0 where "t0 = t\<lparr>timedOut := False\<rparr>"
  define t1 where "t1 = snd (phase (setUp t0) ''setUp'' (step SettingUp t0))"
  define t2 where "t2 = snd (runTestMethod t1)"
  define t3 where "t3 = snd (deferRunCleanups t2)"
  define t4 where "t4 = snd (deferTearDown t3)"
  have g0: "getTimeoutReturns t0" and s0: "behaviour (setUp t0) = Succeeds"
    using assms(1,2) by (simp_all add: t0_def)
  have cl1: "cleanups t1 = cleanups t @ registers (setUp t)" and rp1: "reports t1 = reports t"
    using g0 s0 by (simp_all add: t1_def phase_Succeeds step_def) (simp_all add: t0_def)
  have fx1: "fixture t1 = fixture t"
    using fixture_phase [of "setUp t0" "''setUp''" "step SettingUp t0"] by (simp add: t1_def t0_def)
  have g1: "getTimeoutReturns t1"
    using assms(1) getTimeoutReturns_fixture [OF fx1] by simp
  note same1 = testMethod_fixture [OF fx1]
  have m1: "behaviour (testMethod t1) = Succeeds"
    using assms(3) same1 by simp
  have r2: "fst (runTestMethod t1) = Returned"
    by (rule runTestMethod_Succeeds(1) [OF g1 m1])
  have c2: "cleanups t2 = stack"
    using runTestMethod_general(2) [of t1] g1 m1 cl1 same1
    by (simp add: t2_def stack_def pushed_def)
  obtain rs2 where rp2: "reports t2 = reports t @ rs2" "AddSuccess \<notin> set rs2"
    using runTestMethod_Succeeds(2) [OF g1 m1] rp1 by (auto simp: t2_def)
  have fx2: "fixture t2 = fixture t"
    using runTestMethod_general(4) [of t1] fx1 by (simp add: t2_def)
  have g2: "getTimeoutReturns t2"
    using assms(1) getTimeoutReturns_fixture [OF fx2] by simp
  have all: "list_all completes stack"
    using assms(4) by (simp add: stack_def)
  note c = drained_completes [OF all]
  have nonempty: "failures \<noteq> []"
    using assms(5) by (simp add: failures_def stack_def)
  have r3: "fst (deferRunCleanups t2) = Returned"
    using deferRunCleanups_drained(1) [OF g2] c2 c(2) by simp
  have rp3: "reports t3 = reports t2 @ map AddError failures"
    using deferRunCleanups_drained(3) [OF g2] c2 c(2,3) c(4) [of "getTodo t2"]
    by (simp add: t3_def failures_def)
  have p3: "\<not> passed t3"
    using deferRunCleanups_drained(4) [OF g2] c2 c(2,3) nonempty
    by (simp add: t3_def failures_def)
  have fx3: "fixture t3 = fixture t"
    using fixture_deferRunCleanups [of t2] fx2 by (simp add: t3_def)
  have g3: "getTimeoutReturns t3"
    using assms(1) getTimeoutReturns_fixture [OF fx3] by simp
  note same3 = testMethod_fixture [OF fx3]
  from deferTearDown_general(2) [of t3] obtain rs4 where
    rp4: "reports t4 = reports t3 @ rs4" "AddSuccess \<notin> set rs4"
    by (auto simp: t4_def)
  have p4: "\<not> passed t4"
    using deferTearDown_general(3) [of t3] p3 by (auto simp: t4_def)
  have sus4: "fst (deferTearDown t3) = Suspended \<longleftrightarrow> behaviour (tearDown t) = Stalls"
    using deferTearDown_general(4) [of t3] g3 same3 by simp
  have snd4: "snd (deferSetUp t0) = t4"
    using deferSetUp_finalizers(1) [OF g0 s0] r2 r3 by (simp add: t1_def t2_def t3_def t4_def)
  have fst4: "fst (deferSetUp t0) = Suspended \<longleftrightarrow> behaviour (tearDown t) = Stalls"
    using deferSetUp_finalizers(2) [OF g0 s0] r2 r3 sus4 by (simp add: t1_def t2_def t3_def)
  have part1: "\<exists>rs. reports t' = reports t @ rs \<and> AddSuccess \<notin> set rs \<and>
      (\<forall>f \<in> set failures. AddError f \<in> set rs)"
    if "runFixturesAndTest evs t = Some (e, t')" for e t'
  proof -
    have "reports t' = reports t4 @ cleanUpReports False t"
      using runFixturesAndTest_Some(2) [OF that] snd4 p4 by (simp add: t0_def)
    then have "reports t' =
        reports t @ (rs2 @ map AddError failures @ rs4 @ cleanUpReports False t)"
      using rp4 rp3 rp2 by simp
    moreover have "AddSuccess \<notin> set (rs2 @ map AddError failures @ rs4 @ cleanUpReports False t)"
      using rp2 rp4 cleanUpReports_not_passed [of t] by auto
    moreover have "\<forall>f \<in> set failures.
        AddError f \<in> set (rs2 @ map AddError failures @ rs4 @ cleanUpReports False t)"
      by auto
    ultimately show ?thesis by blast
  qed
  have part2: "\<exists>e t'. runFixturesAndTest evs t = Some (e, t')"
    if "behaviour (tearDown t) \<noteq> Stalls"
    using runFixturesAndTest_ends [of t evs] fst4 that by (simp add: t0_def)
  from part1 part2 show ?thesis
    unfolding failures_def stack_def by blast
qed

theorem cleanup_failure_demotes_witness:
  "getTimeoutReturns leakingTest \<and>
   behaviour (setUp leakingTest) = Succeeds \<and> behaviour (testMethod leakingTest) = Succeeds \<and>
   list_all completes
     (cleanups leakingTest @ registers (setUp leakingTest) @ registers (testMethod leakingTest)) \<and>
   concat (map cleanupFailure (drainOrder
      (cleanups leakingTest @ registers (setUp leakingTest) @ registers (testMethod leakingTest)))) =
     [Failure RuntimeError ''boom''] \<and>
   map_option (reports \<circ> snd) (runFixturesAndTest [] leakingTest) =
     Some [AddError (Failure RuntimeError ''boom'')]"
  using cleanup_failure_demotes [of leakingTest "[]"]
  by (simp add: leakingTest_def example_simps run_simps drainOrder_def cleanupFailure_def fate_def)

end
